theory Spec2Isabelle
  imports Complex_Main "HOL-Library.Word"
begin

section \<open>The JavaScript values the parser works on\<close>

text \<open>
  A JavaScript string is a sequence of 16-bit code units; \<open>length\<close>, \<open>trim\<close>,
  \<open>split\<close> and \<open>JSON.parse\<close> all work on code units.
\<close>

type_synonym code_unit = "16 word"
type_synonym jsstring = "code_unit list"

definition js :: "string \<Rightarrow> jsstring" where
  "js s = map (\<lambda>c. of_nat (of_char c)) s"

text \<open>
  A Number that \<open>JSON.parse\<close> can produce: a finite binary64 value (held as the rational
  it denotes), minus zero, or an infinity (a literal such as \<open>1e999\<close> overflows). NaN has
  no JSON literal.
\<close>

datatype number = Finite rat | NegZero | PosInfinity | NegInfinity

text \<open>
  The values \<open>JSON.parse\<close> returns. An object holds its own properties in the order
  \<open>Object.keys\<close> enumerates them: array-index keys in ascending numeric order, then the
  other keys in the order of their creation.
\<close>

datatype json =
    JNull
  | JBool bool
  | JNumber number
  | JString jsstring
  | JArray "json list"
  | JObject "(jsstring \<times> json) list"

datatype exception = SyntaxError | TypeError | RangeError

section \<open>String built-ins\<close>

text \<open>
  \<open>String.prototype.trim\<close> strips WhiteSpace and LineTerminator code units from both
  ends: TAB, LF, VT, FF, CR, SP, NBSP, the Unicode space separators, LS, PS and the BOM.
\<close>

definition isWhiteSpace :: "code_unit \<Rightarrow> bool" where
  "isWhiteSpace c \<longleftrightarrow>
     c = 0x9 \<or> c = 0xA \<or> c = 0xB \<or> c = 0xC \<or> c = 0xD \<or> c = 0x20 \<or> c = 0xA0 \<or>
     c = 0x1680 \<or> (0x2000 \<le> c \<and> c \<le> 0x200A) \<or> c = 0x2028 \<or> c = 0x2029 \<or>
     c = 0x202F \<or> c = 0x205F \<or> c = 0x3000 \<or> c = 0xFEFF"

definition String_trim :: "jsstring \<Rightarrow> jsstring" where
  "String_trim s = rev (dropWhile isWhiteSpace (rev (dropWhile isWhiteSpace s)))"

definition String_startsWith :: "jsstring \<Rightarrow> jsstring \<Rightarrow> bool" where
  "String_startsWith s p \<longleftrightarrow> take (length p) s = p"

text \<open>
  \<open>text.split(sep)\<close> for a separator of one code unit. The result is never empty:
  the empty string splits into one empty piece.
\<close>

fun String_split :: "jsstring \<Rightarrow> code_unit \<Rightarrow> jsstring list" where
  "String_split [] sep = [[]]"
| "String_split (c # cs) sep =
     (if c = sep then [] # String_split cs sep
      else (case String_split cs sep of
              [] \<Rightarrow> [[c]]
            | l # ls \<Rightarrow> (c # l) # ls))"

section \<open>Numbers: literal to binary64 and back\<close>

function count_digits :: "int \<Rightarrow> int \<Rightarrow> int" where
  "count_digits b x = (if 0 < x \<and> 1 < b then count_digits b (x div b) + 1 else 0)"
  by pat_completeness auto
termination
  by (relation "measure (\<lambda>(b, x). nat x)") (auto simp: int_div_less_self)

declare count_digits.simps [simp del]

text \<open>The integer \<open>e\<close> with \<open>b ^ e \<le> q < b ^ (e + 1)\<close>, for a positive \<open>q\<close>.\<close>

definition ilog :: "int \<Rightarrow> rat \<Rightarrow> int" where
  "ilog b q = (if 1 \<le> q then count_digits b \<lfloor>q\<rfloor> - 1
               else - count_digits b (\<lceil>1 / q\<rceil> - 1))"

definition round_half_even :: "rat \<Rightarrow> int" where
  "round_half_even q = (let f = \<lfloor>q\<rfloor>; d = q - of_int f in
     if d < 1 / 2 then f else if 1 / 2 < d then f + 1 else if even f then f else f + 1)"

text \<open>
  Round a positive rational to the nearest binary64 value, ties to even: 53 significant
  bits, the smallest spacing \<open>2 ^ -1074\<close>; \<open>None\<close> is overflow to infinity.
\<close>

definition roundToDouble :: "rat \<Rightarrow> rat option" where
  "roundToDouble q = (let ulp = 2 powi (max (ilog 2 q - 52) (- 1074));
       v = of_int (round_half_even (q / ulp)) * ulp
     in if 2 powi 1024 \<le> v then None else Some v)"

text \<open>The Number denoted by the decimal literal \<open>\<plusminus> d * 10 ^ e\<close>.\<close>

definition Number_of_decimal :: "bool \<Rightarrow> int \<Rightarrow> int \<Rightarrow> number" where
  "Number_of_decimal neg d e =
     (if d = 0 then (if neg then NegZero else Finite 0)
      else case roundToDouble (of_int d * 10 powi e) of
             None \<Rightarrow> (if neg then NegInfinity else PosInfinity)
           | Some v \<Rightarrow> if v = 0 then (if neg then NegZero else Finite 0)
                      else Finite (if neg then - v else v))"

function digit_list :: "int \<Rightarrow> int list" where
  "digit_list n = (if n < 10 then [n] else digit_list (n div 10) @ [n mod 10])"
  by pat_completeness auto
termination
  by (relation "measure nat") (auto simp: int_div_less_self)

declare digit_list.simps [simp del]

definition digit_char :: "int \<Rightarrow> code_unit" where
  "digit_char d = of_int (48 + d)"

text \<open>The decimal digits of a non-negative integer.\<close>

definition int_to_dec :: "int \<Rightarrow> jsstring" where
  "int_to_dec n = map digit_char (digit_list n)"

text \<open>
  \<open>Number::toString\<close> looks for integers \<open>n\<close>, \<open>k\<close>, \<open>s\<close> with \<open>k\<close> as small as
  possible, \<open>10 ^ (k - 1) \<le> s < 10 ^ k\<close> and \<open>s * 10 ^ (n - k)\<close> rounding to \<open>x\<close>;
  among several \<open>s\<close> the one closest to \<open>x\<close>, then the even one. For a given \<open>k\<close> only
  the two \<open>k\<close>-digit decimals around \<open>x\<close> can qualify.
\<close>

definition digits_candidate :: "rat \<Rightarrow> nat \<Rightarrow> (int \<times> int) option" where
  "digits_candidate x k = (let n = ilog 10 x + 1; scale = 10 powi (n - int k);
       lo = \<lfloor>x / scale\<rfloor>; hi = lo + 1;
       ok = (\<lambda>s. roundToDouble (of_int s * scale) = Some x);
       pick = (\<lambda>s. if s = 10 ^ k then Some (10 ^ (k - 1), n + 1) else Some (s, n))
     in if ok lo \<and> ok hi then
          (let dl = x - of_int lo * scale; dh = of_int hi * scale - x
           in if dl < dh then pick lo else if dh < dl then pick hi
              else if even lo then pick lo else pick hi)
        else if ok lo then pick lo else if ok hi then pick hi else None)"

text \<open>Seventeen digits identify every binary64 value, so the search stops there.\<close>

function shortest_digits :: "rat \<Rightarrow> nat \<Rightarrow> int \<times> int" where
  "shortest_digits x k = (case digits_candidate x k of
       Some r \<Rightarrow> r
     | None \<Rightarrow> if k < 17 then shortest_digits x (k + 1)
               else (\<lfloor>x / 10 powi (ilog 10 x + 1 - int k)\<rfloor>, ilog 10 x + 1))"
  by pat_completeness auto
termination
  by (relation "measure (\<lambda>(x, k). 17 - k)") auto

declare shortest_digits.simps [simp del]

definition positive_toString :: "rat \<Rightarrow> jsstring" where
  "positive_toString x = (let (s, n) = shortest_digits x 1; ds = int_to_dec s;
       k = int (length ds);
       expo = (if 0 \<le> n - 1 then js ''e+'' @ int_to_dec (n - 1)
               else js ''e-'' @ int_to_dec (1 - n))
     in if k \<le> n \<and> n \<le> 21 then ds @ replicate (nat (n - k)) (digit_char 0)
        else if 0 < n \<and> n \<le> 21 then take (nat n) ds @ js ''.'' @ drop (nat n) ds
        else if - 6 < n \<and> n \<le> 0 then js ''0.'' @ replicate (nat (- n)) (digit_char 0) @ ds
        else if k = 1 then ds @ expo
        else take 1 ds @ js ''.'' @ drop 1 ds @ expo)"

definition Number_toString :: "number \<Rightarrow> jsstring" where
  "Number_toString x = (case x of
       Finite v \<Rightarrow> if v = 0 then js ''0''
                  else if v < 0 then js ''-'' @ positive_toString (- v)
                  else positive_toString v
     | NegZero \<Rightarrow> js ''0''
     | PosInfinity \<Rightarrow> js ''Infinity''
     | NegInfinity \<Rightarrow> js ''-Infinity'')"

section \<open>\<open>JSON.parse\<close>\<close>

text \<open>JSON whitespace is TAB, LF, CR and SP only.\<close>

definition isJSONWhiteSpace :: "code_unit \<Rightarrow> bool" where
  "isJSONWhiteSpace c \<longleftrightarrow> c = 0x9 \<or> c = 0xA \<or> c = 0xD \<or> c = 0x20"

definition skip_ws :: "jsstring \<Rightarrow> jsstring" where
  "skip_ws cs = dropWhile isJSONWhiteSpace cs"

definition isDigit :: "code_unit \<Rightarrow> bool" where
  "isDigit c \<longleftrightarrow> 0x30 \<le> c \<and> c \<le> 0x39"

definition digits_value :: "jsstring \<Rightarrow> int" where
  "digits_value ds = foldl (\<lambda>a c. 10 * a + (uint c - 48)) 0 ds"

definition hex_value :: "code_unit \<Rightarrow> code_unit option" where
  "hex_value c =
     (if 0x30 \<le> c \<and> c \<le> 0x39 then Some (c - 0x30)
      else if 0x41 \<le> c \<and> c \<le> 0x46 then Some (c - 0x37)
      else if 0x61 \<le> c \<and> c \<le> 0x66 then Some (c - 0x57)
      else None)"

definition hex4 :: "code_unit \<Rightarrow> code_unit \<Rightarrow> code_unit \<Rightarrow> code_unit \<Rightarrow> code_unit option" where
  "hex4 a b c d =
     (case (hex_value a, hex_value b, hex_value c, hex_value d) of
        (Some w, Some x, Some y, Some z) \<Rightarrow> Some (4096 * w + 256 * x + 16 * y + z)
      | _ \<Rightarrow> None)"

text \<open>The two-character escapes: quote, backslash, slash, b, f, n, r, t.\<close>

definition unescape :: "code_unit \<Rightarrow> code_unit option" where
  "unescape e =
     (if e = 0x22 then Some 0x22
      else if e = 0x5C then Some 0x5C
      else if e = 0x2F then Some 0x2F
      else if e = 0x62 then Some 0x8
      else if e = 0x66 then Some 0xC
      else if e = 0x6E then Some 0xA
      else if e = 0x72 then Some 0xD
      else if e = 0x74 then Some 0x9
      else None)"

text \<open>
  The characters of a string literal after its opening quote, up to the closing quote:
  the decoded string and the input that follows. A control character below U+0020 is not
  allowed unescaped.
\<close>

fun parse_chars :: "jsstring \<Rightarrow> (jsstring \<times> jsstring) option" where
  "parse_chars [] = None"
| "parse_chars (c # cs) =
     (if c = 0x22 then Some ([], cs)
      else if c < 0x20 then None
      else if c \<noteq> 0x5C then map_option (apfst ((#) c)) (parse_chars cs)
      else (case cs of
              [] \<Rightarrow> None
            | e # cs' \<Rightarrow>
                if e = 0x75 then
                  (case cs' of
                     h1 # h2 # h3 # h4 # rest \<Rightarrow>
                       (case hex4 h1 h2 h3 h4 of
                          None \<Rightarrow> None
                        | Some u \<Rightarrow> map_option (apfst ((#) u)) (parse_chars rest))
                   | _ \<Rightarrow> None)
                else
                  (case unescape e of
                     None \<Rightarrow> None
                   | Some u \<Rightarrow> map_option (apfst ((#) u)) (parse_chars cs'))))"

text \<open>
  A number literal: an optional minus, \<open>0\<close> or a digit sequence without leading zero,
  an optional fraction, an optional exponent.
\<close>

definition parse_int_part :: "jsstring \<Rightarrow> (jsstring \<times> jsstring) option" where
  "parse_int_part cs =
     (case cs of
        [] \<Rightarrow> None
      | c # r \<Rightarrow> if c = 0x30 then Some ([c], r)
                 else if isDigit c then Some (takeWhile isDigit cs, dropWhile isDigit cs)
                 else None)"

definition parse_fraction :: "jsstring \<Rightarrow> (jsstring \<times> jsstring) option" where
  "parse_fraction cs =
     (case cs of
        [] \<Rightarrow> Some ([], cs)
      | c # r \<Rightarrow> if c = 0x2E then
                   (if takeWhile isDigit r = [] then None
                    else Some (takeWhile isDigit r, dropWhile isDigit r))
                 else Some ([], cs))"

definition parse_exponent :: "jsstring \<Rightarrow> (int \<times> jsstring) option" where
  "parse_exponent cs =
     (case cs of
        [] \<Rightarrow> Some (0, cs)
      | c # r \<Rightarrow>
          if c = 0x65 \<or> c = 0x45 then
            (let neg = (take 1 r = [0x2D]);
                 r' = (if take 1 r = [0x2D] \<or> take 1 r = [0x2B] then drop 1 r else r)
             in if takeWhile isDigit r' = [] then None
                else Some ((if neg then - 1 else 1) * digits_value (takeWhile isDigit r'),
                           dropWhile isDigit r'))
          else Some (0, cs))"

definition parse_number :: "jsstring \<Rightarrow> (json \<times> jsstring) option" where
  "parse_number cs =
     (let neg = (take 1 cs = [0x2D]) in
      case parse_int_part (if neg then drop 1 cs else cs) of
        None \<Rightarrow> None
      | Some (ip, cs1) \<Rightarrow>
          (case parse_fraction cs1 of
             None \<Rightarrow> None
           | Some (fp, cs2) \<Rightarrow>
               (case parse_exponent cs2 of
                  None \<Rightarrow> None
                | Some (ex, cs3) \<Rightarrow>
                    Some (JNumber (Number_of_decimal neg (digits_value (ip @ fp))
                                     (ex - int (length fp))), cs3))))"

text \<open>
  \<open>CreateDataProperty\<close> on an ordinary object: an existing key keeps its place and
  takes the new value (of duplicate names in a JSON text the last value wins); a new
  array-index key (the canonical decimal of an integer below \<open>2 ^ 32 - 1\<close>) goes among
  the index keys in ascending order; any other new key goes last.
\<close>

definition array_index :: "jsstring \<Rightarrow> int option" where
  "array_index k =
     (if k \<noteq> [] \<and> list_all isDigit k \<and> (k = [0x30] \<or> take 1 k \<noteq> [0x30])
         \<and> digits_value k < 2 ^ 32 - 1
      then Some (digits_value k) else None)"

fun insert_index :: "int \<Rightarrow> jsstring \<times> json \<Rightarrow> (jsstring \<times> json) list \<Rightarrow> (jsstring \<times> json) list" where
  "insert_index i kv [] = [kv]"
| "insert_index i kv (p # ps) =
     (case array_index (fst p) of
        None \<Rightarrow> kv # p # ps
      | Some j \<Rightarrow> if j < i then p # insert_index i kv ps else kv # p # ps)"

definition CreateDataProperty :: "(jsstring \<times> json) list \<Rightarrow> jsstring \<Rightarrow> json \<Rightarrow> (jsstring \<times> json) list" where
  "CreateDataProperty ps k v =
     (if k \<in> fst ` set ps then map (\<lambda>p. if fst p = k then (k, v) else p) ps
      else case array_index k of
             None \<Rightarrow> ps @ [(k, v)]
           | Some i \<Rightarrow> insert_index i (k, v) ps)"

lemma skip_ws_length: "length (skip_ws cs) \<le> length cs"
  by (simp add: skip_ws_def length_dropWhile_le)

lemma parse_chars_shorter: "parse_chars cs = Some (s, rest) \<Longrightarrow> length rest < length cs"
proof (induction cs arbitrary: s rest rule: parse_chars.induct)
  case 1
  then show ?case by simp
next
  case (2 c cs)
  then show ?case
    by (fastforce split: if_splits list.splits option.splits)
qed

text \<open>
  The recursive-descent parser: \<open>parse_value\<close> reads one value at the head of the input
  and returns it with the input that follows; \<open>parse_elements\<close> reads the rest of an array
  from the start of an element, \<open>parse_members\<close> the rest of an object from the start of
  a member. \<open>None\<close> is a syntax error. The length tests before the two recursive calls
  after a comma always succeed (lemma \<open>parse_shorter\<close>); they make the recursion
  well-founded on the length of the input.
\<close>

function parse_value :: "jsstring \<Rightarrow> (json \<times> jsstring) option"
  and parse_elements :: "json list \<Rightarrow> jsstring \<Rightarrow> (json \<times> jsstring) option"
  and parse_members :: "(jsstring \<times> json) list \<Rightarrow> jsstring \<Rightarrow> (json \<times> jsstring) option"
where
  "parse_value [] = None"
| "parse_value (c # cs) =
     (if c = 0x7B then
        (if take 1 (skip_ws cs) = [0x7D] then Some (JObject [], drop 1 (skip_ws cs))
         else parse_members [] (skip_ws cs))
      else if c = 0x5B then
        (if take 1 (skip_ws cs) = [0x5D] then Some (JArray [], drop 1 (skip_ws cs))
         else parse_elements [] (skip_ws cs))
      else if c = 0x22 then
        (case parse_chars cs of
           None \<Rightarrow> None
         | Some (s, rest) \<Rightarrow> Some (JString s, rest))
      else if take 4 (c # cs) = js ''true'' then Some (JBool True, drop 4 (c # cs))
      else if take 5 (c # cs) = js ''false'' then Some (JBool False, drop 5 (c # cs))
      else if take 4 (c # cs) = js ''null'' then Some (JNull, drop 4 (c # cs))
      else parse_number (c # cs))"
| "parse_elements acc cs =
     (case parse_value cs of
        None \<Rightarrow> None
      | Some (v, rest) \<Rightarrow>
          (case skip_ws rest of
             [] \<Rightarrow> None
           | d # rest' \<Rightarrow>
               if d = 0x5D then Some (JArray (acc @ [v]), rest')
               else if d = 0x2C \<and> length rest' < length cs
                 then parse_elements (acc @ [v]) (skip_ws rest')
               else None))"
| "parse_members acc cs =
     (case cs of
        [] \<Rightarrow> None
      | q # cs0 \<Rightarrow>
          if q \<noteq> 0x22 then None
          else
            (case parse_chars cs0 of
               None \<Rightarrow> None
             | Some (k, cs1) \<Rightarrow>
                 if take 1 (skip_ws cs1) \<noteq> [0x3A] then None
                 else
                   (case parse_value (skip_ws (drop 1 (skip_ws cs1))) of
                      None \<Rightarrow> None
                    | Some (v, rest) \<Rightarrow>
                        (case skip_ws rest of
                           [] \<Rightarrow> None
                         | d # rest' \<Rightarrow>
                             if d = 0x7D then Some (JObject (CreateDataProperty acc k v), rest')
                             else if d = 0x2C \<and> length rest' < length cs
                               then parse_members (CreateDataProperty acc k v) (skip_ws rest')
                             else None))))"
  by pat_completeness auto
termination
proof (relation "measure (\<lambda>x. case x of
           Inl cs \<Rightarrow> 2 * length cs
         | Inr (Inl (acc, cs)) \<Rightarrow> 2 * length cs + 1
         | Inr (Inr (acc, cs)) \<Rightarrow> 2 * length cs + 1)", goal_cases)
  case 1
  show ?case by simp
next
  case (2 c cs)
  then show ?case using skip_ws_length [of cs] by simp
next
  case (3 c cs)
  then show ?case using skip_ws_length [of cs] by simp
next
  case (4 acc cs)
  show ?case by simp
next
  case (5 acc cs x v rest d rest')
  then show ?case using skip_ws_length [of rest'] by simp
next
  case (6 acc cs q cs0 x k cs1)
  then show ?case
    using parse_chars_shorter [of cs0 k cs1] skip_ws_length [of cs1]
      skip_ws_length [of "drop 1 (skip_ws cs1)"]
    by simp
next
  case (7 acc cs q cs0 x k cs1 y v rest d rest')
  then show ?case using skip_ws_length [of rest'] by simp
qed

text \<open>
  \<open>JSON.parse(text)\<close>: one value between optional whitespace and nothing else; any
  other text throws a SyntaxError.
\<close>

definition JSON_parse :: "jsstring \<Rightarrow> exception + json" where
  "JSON_parse text =
     (case parse_value (skip_ws text) of
        None \<Rightarrow> Inl SyntaxError
      | Some (v, rest) \<Rightarrow> if skip_ws rest = [] then Inr v else Inl SyntaxError)"

section \<open>\<open>JSON.stringify\<close>\<close>

definition hex_char :: "code_unit \<Rightarrow> code_unit" where
  "hex_char h = (if h < 10 then 0x30 + h else 0x57 + h)"

definition UnicodeEscape :: "code_unit \<Rightarrow> jsstring" where
  "UnicodeEscape c =
     [0x5C, 0x75, hex_char (drop_bit 12 c), hex_char (take_bit 4 (drop_bit 8 c)),
      hex_char (take_bit 4 (drop_bit 4 c)), hex_char (take_bit 4 c)]"

definition isLeadingSurrogate :: "code_unit \<Rightarrow> bool" where
  "isLeadingSurrogate c \<longleftrightarrow> 0xD800 \<le> c \<and> c \<le> 0xDBFF"

definition isTrailingSurrogate :: "code_unit \<Rightarrow> bool" where
  "isTrailingSurrogate c \<longleftrightarrow> 0xDC00 \<le> c \<and> c \<le> 0xDFFF"

text \<open>
  \<open>QuoteJSONString\<close> without the enclosing quotes: the short escapes, a \<open>\u\<close> escape
  for the other control characters and for a surrogate that is not part of a pair,
  everything else as it is.
\<close>

fun quote_chars :: "jsstring \<Rightarrow> jsstring" where
  "quote_chars [] = []"
| "quote_chars (c # cs) =
     (if c = 0x8 then [0x5C, 0x62] @ quote_chars cs
      else if c = 0x9 then [0x5C, 0x74] @ quote_chars cs
      else if c = 0xA then [0x5C, 0x6E] @ quote_chars cs
      else if c = 0xC then [0x5C, 0x66] @ quote_chars cs
      else if c = 0xD then [0x5C, 0x72] @ quote_chars cs
      else if c = 0x22 then [0x5C, 0x22] @ quote_chars cs
      else if c = 0x5C then [0x5C, 0x5C] @ quote_chars cs
      else if c < 0x20 \<or> isTrailingSurrogate c then UnicodeEscape c @ quote_chars cs
      else if isLeadingSurrogate c then
        (case cs of
           [] \<Rightarrow> UnicodeEscape c
         | d # ds \<Rightarrow> if isTrailingSurrogate d then c # d # quote_chars ds
                     else UnicodeEscape c @ quote_chars cs)
      else c # quote_chars cs)"

definition QuoteJSONString :: "jsstring \<Rightarrow> jsstring" where
  "QuoteJSONString s = [0x22] @ quote_chars s @ [0x22]"

fun join :: "jsstring \<Rightarrow> jsstring list \<Rightarrow> jsstring" where
  "join sep [] = []"
| "join sep [x] = x"
| "join sep (x # y # ys) = x @ sep @ join sep (y # ys)"

text \<open>
  \<open>JSON.stringify(value)\<close> without indentation, on a value that came from
  \<open>JSON.parse\<close>: it always returns a string. A Number that is not finite is written
  \<open>null\<close>.
\<close>

fun JSON_stringify :: "json \<Rightarrow> jsstring" where
  "JSON_stringify JNull = js ''null''"
| "JSON_stringify (JBool b) = (if b then js ''true'' else js ''false'')"
| "JSON_stringify (JNumber n) =
     (case n of
        PosInfinity \<Rightarrow> js ''null''
      | NegInfinity \<Rightarrow> js ''null''
      | _ \<Rightarrow> Number_toString n)"
| "JSON_stringify (JString s) = QuoteJSONString s"
| "JSON_stringify (JArray xs) = js ''['' @ join (js '','') (map JSON_stringify xs) @ js '']''"
| "JSON_stringify (JObject ps) =
     js ''{'' @ join (js '','')
       (map (\<lambda>p. QuoteJSONString (fst p) @ js '':'' @ JSON_stringify (snd p)) ps) @ js ''}''"

text \<open>
  The engine's serialiser is recursive: on a value nested deeper than its stack allows,
  \<open>JSON.stringify\<close> raises a RangeError instead of returning. On which values that
  happens is a property of the engine, not of the program: it is the parameter
  \<open>throws\<close> of the call below, and the statements about \<open>parseJsonl\<close> hold for every
  choice of it.
\<close>

definition JSON_stringify_call :: "(json \<Rightarrow> bool) \<Rightarrow> json \<Rightarrow> exception + jsstring" where
  "JSON_stringify_call throws v = (if throws v then Inl RangeError else Inr (JSON_stringify v))"

text \<open>
  \<open>Array.prototype.map\<close> with a callback that can throw: the elements are visited in
  order and the first exception ends the call.
\<close>

fun Array_map :: "('a \<Rightarrow> exception + 'b) \<Rightarrow> 'a list \<Rightarrow> exception + 'b list" where
  "Array_map f [] = Inr []"
| "Array_map f (x # xs) =
     (case f x of
        Inl e \<Rightarrow> Inl e
      | Inr y \<Rightarrow>
          (case Array_map f xs of
             Inl e \<Rightarrow> Inl e
           | Inr ys \<Rightarrow> Inr (y # ys)))"

section \<open>Operators and built-ins on values\<close>

definition typeof :: "json \<Rightarrow> string" where
  "typeof v =
     (case v of
        JNull \<Rightarrow> ''object''
      | JBool _ \<Rightarrow> ''boolean''
      | JNumber _ \<Rightarrow> ''number''
      | JString _ \<Rightarrow> ''string''
      | JArray _ \<Rightarrow> ''object''
      | JObject _ \<Rightarrow> ''object'')"

definition Array_isArray :: "json \<Rightarrow> bool" where
  "Array_isArray v = (case v of JArray _ \<Rightarrow> True | _ \<Rightarrow> False)"

text \<open>
  \<open>Object.keys(v)\<close>: a TypeError on \<open>null\<close>; the own enumerable string keys
  otherwise (the indices of an array or a string, none for a number or a boolean).
\<close>

definition Object_keys :: "json \<Rightarrow> exception + jsstring list" where
  "Object_keys v =
     (case v of
        JNull \<Rightarrow> Inl TypeError
      | JBool _ \<Rightarrow> Inr []
      | JNumber _ \<Rightarrow> Inr []
      | JString s \<Rightarrow> Inr (map (\<lambda>i. int_to_dec (int i)) [0..<length s])
      | JArray xs \<Rightarrow> Inr (map (\<lambda>i. int_to_dec (int i)) [0..<length xs])
      | JObject ps \<Rightarrow> Inr (map fst ps))"

text \<open>
  A \<open>Set<string>\<close> as the list of its members in insertion order: \<open>add\<close> appends a
  member that is not there yet, and \<open>Array.from\<close> yields the members in that order.
\<close>

definition Set_add :: "jsstring \<Rightarrow> jsstring list \<Rightarrow> jsstring list" where
  "Set_add k s = (if k \<in> set s then s else s @ [k])"

definition Array_from :: "jsstring list \<Rightarrow> jsstring list" where
  "Array_from s = s"

section \<open>The parser of \<open>src/lib/parse-jsonl.ts\<close>\<close>

text \<open>
  \<open>ParsedRecord\<close> and the items handed to \<open>buildResult\<close>, which have the same fields
  without \<open>error\<close>. The field \<open>data\<close> is declared \<open>Record<string, unknown> | null\<close>, but
  at run time it holds whatever value was parsed; \<open>JNull\<close> is \<open>null\<close>. An absent
  \<open>error\<close> property is \<open>None\<close>.
\<close>

record Item =
  index :: nat
  data :: json
  raw :: jsstring

record ParsedRecord = Item +
  error :: "jsstring option"

record ParseResult =
  records :: "ParsedRecord list"
  columns :: "jsstring list"
  errorCount :: nat

text \<open>
  The statement
  \<open>if (typeof d === "object" && d !== null && !Array.isArray(d)) for (const key of Object.keys(d)) columnSet.add(key)\<close>
  of \<open>parseLines\<close> and \<open>buildResult\<close>.
\<close>

definition add_keys :: "json \<Rightarrow> jsstring list \<Rightarrow> exception + jsstring list" where
  "add_keys d columnSet =
     (if typeof d = ''object'' \<and> d \<noteq> JNull \<and> \<not> Array_isArray d then
        (case Object_keys d of
           Inl e \<Rightarrow> Inl e
         | Inr keys \<Rightarrow> Inr (fold Set_add keys columnSet))
      else Inr columnSet)"

text \<open>
  \<open>buildResult\<close>: the loop over the items, with the records and the column set built so
  far.
\<close>

fun buildResult_loop :: "Item list \<Rightarrow> ParsedRecord list \<times> jsstring list
    \<Rightarrow> exception + ParsedRecord list \<times> jsstring list" where
  "buildResult_loop [] st = Inr st"
| "buildResult_loop (item # items) (recs, columnSet) =
     (case add_keys (data item) columnSet of
        Inl e \<Rightarrow> Inl e
      | Inr columnSet' \<Rightarrow>
          buildResult_loop items
            (recs @ [\<lparr>index = index item, data = data item, raw = raw item, error = None\<rparr>],
             columnSet'))"

definition buildResult :: "Item list \<Rightarrow> exception + ParseResult" where
  "buildResult items =
     (case buildResult_loop items ([], []) of
        Inl e \<Rightarrow> Inl e
      | Inr (recs, columnSet) \<Rightarrow>
          Inr \<lparr>records = recs, columns = Array_from columnSet, errorCount = 0\<rparr>)"

text \<open>
  \<open>parseLines\<close>. The state of the loop is \<open>records\<close>, \<open>columnSet\<close> and \<open>errorCount\<close>
  (the variables \<open>recs\<close>, \<open>columnSet\<close> and \<open>errs\<close> below).
  The body of the \<open>try\<close> changes nothing before the last point where it can throw, so
  the \<open>catch\<close> block starts from the state the \<open>try\<close> started from.
\<close>

type_synonym lines_state = "ParsedRecord list \<times> jsstring list \<times> nat"

definition parseLines_try :: "jsstring \<Rightarrow> lines_state \<Rightarrow> exception + lines_state" where
  "parseLines_try line st =
     (case st of (recs, columnSet, errs) \<Rightarrow>
        (case JSON_parse line of
           Inl e \<Rightarrow> Inl e
         | Inr d \<Rightarrow>
             (case add_keys d columnSet of
                Inl e \<Rightarrow> Inl e
              | Inr columnSet' \<Rightarrow>
                  Inr (recs @ [\<lparr>index = length recs, data = d, raw = line, error = None\<rparr>],
                       columnSet', errs))))"

text \<open>
  The message \<open>`Malformed JSON on line ${i + 1}`\<close>: the line number is an integer far
  below \<open>10 ^ 21\<close>, which \<open>Number::toString\<close> writes as its decimal digits.
\<close>

definition malformed_message :: "nat \<Rightarrow> jsstring" where
  "malformed_message i = js ''Malformed JSON on line '' @ int_to_dec (int (i + 1))"

definition parseLines_catch :: "nat \<Rightarrow> jsstring \<Rightarrow> lines_state \<Rightarrow> lines_state" where
  "parseLines_catch i line st =
     (case st of (recs, columnSet, errs) \<Rightarrow>
        (recs @ [\<lparr>index = length recs, data = JNull, raw = line,
                     error = Some (malformed_message i)\<rparr>],
         columnSet, errs + 1))"

definition parseLines_body :: "nat \<Rightarrow> jsstring \<Rightarrow> lines_state \<Rightarrow> lines_state" where
  "parseLines_body i line st =
     (case parseLines_try line st of
        Inr st' \<Rightarrow> st'
      | Inl e \<Rightarrow> parseLines_catch i line st)"

function parseLines_loop :: "jsstring list \<Rightarrow> nat \<Rightarrow> lines_state \<Rightarrow> lines_state" where
  "parseLines_loop lines i st =
     (if i < length lines then
        (let line = String_trim (lines ! i) in
         if line = [] then parseLines_loop lines (i + 1) st
         else parseLines_loop lines (i + 1) (parseLines_body i line st))
      else st)"
  by pat_completeness auto
termination
  by (relation "measure (\<lambda>(lines, i, st). length lines - i)") auto

declare parseLines_loop.simps [simp del]

definition parseLines :: "jsstring \<Rightarrow> ParseResult" where
  "parseLines text =
     (case parseLines_loop (String_split text 0xA) 0 ([], [], 0) of
        (recs, columnSet, errs) \<Rightarrow>
          \<lparr>records = recs, columns = Array_from columnSet, errorCount = errs\<rparr>)"

text \<open>
  \<open>parseJsonl\<close>. The body of its \<open>try\<close> either returns a result, or ends without
  returning (\<open>Inr None\<close>: the parsed value is neither an array nor an object), or throws;
  in the last two cases control reaches \<open>parseLines(text)\<close>. Inside the \<open>try\<close>,
  \<open>JSON.parse\<close> can throw, and so can \<open>JSON.stringify(item)\<close> in the callback of
  \<open>parsed.map\<close> (\<open>array_item\<close> below); \<open>throws\<close> says on which elements the
  engine's serialiser does. The test \<open>Array.isArray(parsed)\<close> is the first case of the
  distinction on the parsed value.
\<close>

definition array_item :: "(json \<Rightarrow> bool) \<Rightarrow> nat \<times> json \<Rightarrow> exception + Item" where
  "array_item throws p =
     (case p of (i, item) \<Rightarrow>
        (case JSON_stringify_call throws item of
           Inl e \<Rightarrow> Inl e
         | Inr r \<Rightarrow>
             Inr \<lparr>index = i,
                  data = (if typeof item = ''object'' \<and> item \<noteq> JNull then item
                          else JObject [(js ''value'', item)]),
                  raw = r\<rparr>))"

definition parseJsonl_try :: "(json \<Rightarrow> bool) \<Rightarrow> jsstring \<Rightarrow> exception + ParseResult option" where
  "parseJsonl_try throws trimmed =
     (case JSON_parse trimmed of
        Inl e \<Rightarrow> Inl e
      | Inr parsed \<Rightarrow>
          (case parsed of
             JArray elems \<Rightarrow>
               (case Array_map (array_item throws) (enumerate 0 elems) of
                  Inl e \<Rightarrow> Inl e
                | Inr items \<Rightarrow>
                    (case buildResult items of
                       Inl e \<Rightarrow> Inl e
                     | Inr r \<Rightarrow> Inr (Some r)))
           | _ \<Rightarrow>
               if typeof parsed = ''object'' \<and> parsed \<noteq> JNull then
                 (case buildResult [\<lparr>index = 0, data = parsed, raw = trimmed\<rparr>] of
                    Inl e \<Rightarrow> Inl e
                  | Inr r \<Rightarrow> Inr (Some r))
               else Inr None))"

definition parseJsonl :: "(json \<Rightarrow> bool) \<Rightarrow> jsstring \<Rightarrow> exception + ParseResult" where
  "parseJsonl throws text =
     (let trimmed = String_trim text in
      if String_startsWith trimmed (js ''['') \<or> String_startsWith trimmed (js ''{'') then
        (case parseJsonl_try throws trimmed of
           Inr (Some r) \<Rightarrow> Inr r
         | Inr None \<Rightarrow> Inr (parseLines text)
         | Inl e \<Rightarrow> Inr (parseLines text))
      else Inr (parseLines text))"

section \<open>Notions used in the statements\<close>

text \<open>
  \<open>first_seen\<close> keeps the first occurrence of every element, in order: the ordered union
  without duplicates. \<open>object_keys\<close> are the keys of a value that is an object and not
  an array (no keys otherwise), \<open>record_keys\<close> those of a record's data.
\<close>

definition first_seen :: "'a list \<Rightarrow> 'a list" where
  "first_seen xs = rev (remdups (rev xs))"

definition object_keys :: "json \<Rightarrow> jsstring list" where
  "object_keys d = (case d of JObject ps \<Rightarrow> map fst ps | _ \<Rightarrow> [])"

definition record_keys :: "ParsedRecord \<Rightarrow> jsstring list" where
  "record_keys x = object_keys (data x)"

definition has_error :: "ParsedRecord \<Rightarrow> bool" where
  "has_error x \<longleftrightarrow> error x \<noteq> None"

text \<open>A line is blank when nothing is left of it after trimming.\<close>

definition nonblank :: "jsstring \<Rightarrow> bool" where
  "nonblank l \<longleftrightarrow> String_trim l \<noteq> []"

text \<open>
  The record that \<open>parseLines\<close> emits for the trimmed, non-blank line \<open>line\<close> at
  position \<open>i\<close> of the split input when \<open>k\<close> records exist already, and the records
  emitted for a list of lines; \<open>lines_fold\<close> is the loop of \<open>parseLines\<close> as a
  recursion over the lines that remain.
\<close>

definition line_record :: "nat \<Rightarrow> nat \<Rightarrow> jsstring \<Rightarrow> ParsedRecord" where
  "line_record k i line =
     (case JSON_parse line of
        Inr d \<Rightarrow> \<lparr>index = k, data = d, raw = line, error = None\<rparr>
      | Inl e \<Rightarrow> \<lparr>index = k, data = JNull, raw = line, error = Some (malformed_message i)\<rparr>)"

fun line_records :: "nat \<Rightarrow> nat \<Rightarrow> jsstring list \<Rightarrow> ParsedRecord list" where
  "line_records k i [] = []"
| "line_records k i (l # ls) =
     (if String_trim l = [] then line_records k (i + 1) ls
      else line_record k i (String_trim l) # line_records (k + 1) (i + 1) ls)"

fun lines_fold :: "nat \<Rightarrow> jsstring list \<Rightarrow> lines_state \<Rightarrow> lines_state" where
  "lines_fold i [] st = st"
| "lines_fold i (l # ls) st =
     lines_fold (i + 1) ls
       (if String_trim l = [] then st else parseLines_body i (String_trim l) st)"

text \<open>The record that \<open>buildResult\<close> pushes for an item.\<close>

definition item_record :: "Item \<Rightarrow> ParsedRecord" where
  "item_record item = \<lparr>index = index item, data = data item, raw = raw item, error = None\<rparr>"

text \<open>
  The item that the callback of \<open>parsed.map\<close> returns for element \<open>item\<close> at position
  \<open>i\<close> when the serialiser returns.
\<close>

definition item_of :: "nat \<times> json \<Rightarrow> Item" where
  "item_of p =
     (case p of (i, item) \<Rightarrow>
        \<lparr>index = i,
         data = (if typeof item = ''object'' \<and> item \<noteq> JNull then item
                 else JObject [(js ''value'', item)]),
         raw = JSON_stringify item\<rparr>)"

text \<open>
  An engine for the examples: its serialiser overflows on a value nested deeper than
  \<open>n\<close> arrays or objects.
\<close>

fun json_depth :: "json \<Rightarrow> nat" where
  "json_depth (JArray xs) = Suc (fold max (map json_depth xs) 0)"
| "json_depth (JObject ps) = Suc (fold max (map (\<lambda>p. json_depth (snd p)) ps) 0)"
| "json_depth v = 0"

definition deeper_than :: "nat \<Rightarrow> json \<Rightarrow> bool" where
  "deeper_than n v \<longleftrightarrow> n < json_depth v"

text \<open>The kinds of JSON value.\<close>

definition isObject :: "json \<Rightarrow> bool" where
  "isObject v = (case v of JObject _ \<Rightarrow> True | _ \<Rightarrow> False)"

definition isArray :: "json \<Rightarrow> bool" where
  "isArray v = (case v of JArray _ \<Rightarrow> True | _ \<Rightarrow> False)"

definition isObjectOrArray :: "json \<Rightarrow> bool" where
  "isObjectOrArray v = (isObject v \<or> isArray v)"

section \<open>The JSON parser consumes its input\<close>

declare parse_elements.simps [simp del] parse_members.simps [simp del]

lemma parse_int_part_shorter: "parse_int_part cs = Some (ip, r) \<Longrightarrow> length r < length cs"
  by (cases cs) (auto simp: parse_int_part_def less_Suc_eq_le length_dropWhile_le split: if_splits)

lemma parse_fraction_shorter: "parse_fraction cs = Some (fp, r) \<Longrightarrow> length r \<le> length cs"
  by (cases cs) (auto simp: parse_fraction_def le_SucI length_dropWhile_le split: if_splits)

lemma parse_exponent_shorter: "parse_exponent cs = Some (ex, r) \<Longrightarrow> length r \<le> length cs"
proof (cases cs)
  case Nil
  assume "parse_exponent cs = Some (ex, r)"
  with Nil show ?thesis by (simp add: parse_exponent_def)
next
  case (Cons c t)
  assume h: "parse_exponent cs = Some (ex, r)"
  have "length (dropWhile isDigit (drop 1 t)) \<le> length t"
    using length_dropWhile_le [of isDigit "drop 1 t"] by simp
  moreover have "length (dropWhile isDigit t) \<le> length t"
    by (rule length_dropWhile_le)
  ultimately show ?thesis using h Cons
    by (auto simp: parse_exponent_def Let_def split: if_splits)
qed

lemma parse_number_shorter: "parse_number cs = Some (v, r) \<Longrightarrow> length r < length cs"
proof -
  assume h: "parse_number cs = Some (v, r)"
  then obtain ip cs1 fp cs2 ex where
    a: "parse_int_part (if take 1 cs = [0x2D] then drop 1 cs else cs) = Some (ip, cs1)"
    and b: "parse_fraction cs1 = Some (fp, cs2)"
    and c: "parse_exponent cs2 = Some (ex, r)"
    by (auto simp: parse_number_def Let_def split: option.splits)
  have "length cs1 < length cs"
    using parse_int_part_shorter [OF a] by (auto split: if_splits)
  with parse_fraction_shorter [OF b] parse_exponent_shorter [OF c] show ?thesis by simp
qed

lemma parse_shorter:
  "parse_value cs = Some (v, rest) \<Longrightarrow> length rest < length cs"
  "parse_elements acc cs = Some (v, rest) \<Longrightarrow> length rest < length cs"
  "parse_members macc cs = Some (v, rest) \<Longrightarrow> length rest < length cs"
proof (induction cs and acc cs and macc cs arbitrary: v rest and v rest and v rest
    rule: parse_value_parse_elements_parse_members.induct)
  case 1
  then show ?case by simp
next
  case (2 c cs)
  note sk = skip_ws_length [of cs]
  show ?case
  proof (cases "c = 0x7B")
    case True
    show ?thesis
    proof (cases "take 1 (skip_ws cs) = [0x7D]")
      case t: True
      with True "2.prems" sk show ?thesis by auto
    next
      case f: False
      with True "2.prems" have "parse_members [] (skip_ws cs) = Some (v, rest)" by simp
      from "2.IH"(1) [OF True f this] sk show ?thesis by simp
    qed
  next
    case nb: False
    show ?thesis
    proof (cases "c = 0x5B")
      case True
      show ?thesis
      proof (cases "take 1 (skip_ws cs) = [0x5D]")
        case t: True
        with True nb "2.prems" sk show ?thesis by auto
      next
        case f: False
        with True nb "2.prems" have "parse_elements [] (skip_ws cs) = Some (v, rest)" by simp
        from "2.IH"(2) [OF nb True f this] sk show ?thesis by simp
      qed
    next
      case nk: False
      show ?thesis
      proof (cases "c = 0x22")
        case True
        with nb nk "2.prems" obtain s where "parse_chars cs = Some (s, rest)"
          by (auto split: option.splits)
        from parse_chars_shorter [OF this] show ?thesis by simp
      next
        case nq: False
        with nb nk "2.prems" parse_number_shorter [of "c # cs" v rest] show ?thesis
          by (auto split: if_splits)
      qed
    qed
  qed
next
  case (3 acc cs)
  from "3.prems" obtain w r1 where pv: "parse_value cs = Some (w, r1)"
    by (auto simp: parse_elements.simps [of acc cs] split: option.splits)
  from "3.IH"(1) [OF pv] have l1: "length r1 < length cs" .
  from "3.prems" pv obtain d r2 where sw: "skip_ws r1 = d # r2"
    by (auto simp: parse_elements.simps [of acc cs] split: list.splits)
  have l2: "length r2 < length cs"
    using skip_ws_length [of r1] sw l1 by simp
  show ?case
  proof (cases "d = 0x5D")
    case True
    with "3.prems" pv sw l2 show ?thesis
      by (simp add: parse_elements.simps [of acc cs])
  next
    case False
    with "3.prems" pv sw l2 have c: "d = 0x2C"
      and r: "parse_elements (acc @ [w]) (skip_ws r2) = Some (v, rest)"
      by (auto simp: parse_elements.simps [of acc cs] split: if_splits)
    from "3.IH"(2) [OF pv refl sw False _ r] c l2 skip_ws_length [of r2] show ?thesis
      by simp
  qed
next
  case (4 acc cs)
  from "4.prems" obtain cs0 where cs: "cs = 0x22 # cs0"
    by (cases cs) (auto simp: parse_members.simps [of acc] split: if_splits)
  from "4.prems" cs obtain k cs1 where pc: "parse_chars cs0 = Some (k, cs1)"
    by (auto simp: parse_members.simps [of acc] split: option.splits)
  from "4.prems" cs pc have colon: "take 1 (skip_ws cs1) = [0x3A]"
    by (auto simp: parse_members.simps [of acc] split: if_splits)
  let ?vs = "skip_ws (drop 1 (skip_ws cs1))"
  from "4.prems" cs pc colon obtain w r1 where pv: "parse_value ?vs = Some (w, r1)"
    by (auto simp: parse_members.simps [of acc] split: option.splits)
  have l0: "length ?vs < length cs"
    using parse_chars_shorter [OF pc] skip_ws_length [of cs1]
      skip_ws_length [of "drop 1 (skip_ws cs1)"] cs by simp
  have nq: "\<not> (0x22::code_unit) \<noteq> 0x22" by simp
  have nc: "\<not> take 1 (skip_ws cs1) \<noteq> [0x3A]" using colon by simp
  from "4.IH"(1) [OF cs nq pc refl nc pv] have l1: "length r1 < length ?vs" .
  from "4.prems" cs pc colon pv obtain d r2 where sw: "skip_ws r1 = d # r2"
    by (auto simp: parse_members.simps [of acc] split: list.splits)
  have l2: "length r2 < length cs"
    using skip_ws_length [of r1] sw l1 l0 by simp
  show ?case
  proof (cases "d = 0x7D")
    case True
    with "4.prems" cs pc colon pv sw l2 show ?thesis
      by (simp add: parse_members.simps [of acc])
  next
    case False
    with "4.prems" cs pc colon pv sw l2
    have r: "parse_members (CreateDataProperty acc k w) (skip_ws r2) = Some (v, rest)"
      and c: "d = 0x2C"
      by (auto simp: parse_members.simps [of acc] split: if_splits)
    from "4.IH"(2) [OF cs nq pc refl nc pv refl sw False _ r] c l2 cs skip_ws_length [of r2]
    show ?thesis by simp
  qed
qed

text \<open>
  So the two length tests in \<open>parse_elements\<close> and \<open>parse_members\<close> never fail:
  both functions satisfy the equations of the plain recursive descent.
\<close>

lemma parse_elements_unguarded:
  "parse_elements acc cs =
     (case parse_value cs of
        None \<Rightarrow> None
      | Some (v, rest) \<Rightarrow>
          (case skip_ws rest of
             [] \<Rightarrow> None
           | d # rest' \<Rightarrow>
               if d = 0x5D then Some (JArray (acc @ [v]), rest')
               else if d = 0x2C then parse_elements (acc @ [v]) (skip_ws rest')
               else None))"
proof (cases "parse_value cs")
  case None
  then show ?thesis by (simp add: parse_elements.simps [of acc cs])
next
  case (Some p)
  obtain v rest where p: "p = (v, rest)" by (cases p)
  from Some p have l: "length rest < length cs" by (simp add: parse_shorter(1))
  show ?thesis
  proof (cases "skip_ws rest")
    case Nil
    with Some p show ?thesis by (simp add: parse_elements.simps [of acc cs])
  next
    case (Cons d rest')
    with l skip_ws_length [of rest] have "length rest' < length cs" by simp
    with Some p Cons show ?thesis by (simp add: parse_elements.simps [of acc cs])
  qed
qed

lemma parse_members_unguarded:
  "parse_members acc cs =
     (case cs of
        [] \<Rightarrow> None
      | q # cs0 \<Rightarrow>
          if q \<noteq> 0x22 then None
          else
            (case parse_chars cs0 of
               None \<Rightarrow> None
             | Some (k, cs1) \<Rightarrow>
                 if take 1 (skip_ws cs1) \<noteq> [0x3A] then None
                 else
                   (case parse_value (skip_ws (drop 1 (skip_ws cs1))) of
                      None \<Rightarrow> None
                    | Some (v, rest) \<Rightarrow>
                        (case skip_ws rest of
                           [] \<Rightarrow> None
                         | d # rest' \<Rightarrow>
                             if d = 0x7D then Some (JObject (CreateDataProperty acc k v), rest')
                             else if d = 0x2C
                               then parse_members (CreateDataProperty acc k v) (skip_ws rest')
                             else None))))"
proof (cases cs)
  case Nil
  then show ?thesis by (simp add: parse_members.simps [of acc])
next
  case (Cons q cs0)
  show ?thesis
  proof (cases "parse_chars cs0")
    case None
    with Cons show ?thesis by (simp add: parse_members.simps [of acc])
  next
    case (Some p)
    obtain k cs1 where p: "p = (k, cs1)" by (cases p)
    let ?vs = "skip_ws (drop 1 (skip_ws cs1))"
    have l0: "length ?vs < length cs"
      using Some p Cons parse_chars_shorter [of cs0 k cs1] skip_ws_length [of cs1]
        skip_ws_length [of "drop 1 (skip_ws cs1)"] by simp
    show ?thesis
    proof (cases "parse_value ?vs")
      case None
      with Cons Some p show ?thesis by (simp add: parse_members.simps [of acc])
    next
      case pv: (Some w)
      obtain v rest where w: "w = (v, rest)" by (cases w)
      from pv w have l1: "length rest < length ?vs" by (simp add: parse_shorter(1))
      show ?thesis
      proof (cases "skip_ws rest")
        case Nil
        with Cons Some p pv w show ?thesis by (simp add: parse_members.simps [of acc])
      next
        case sw: (Cons d rest')
        with l0 l1 skip_ws_length [of rest] have "length rest' < length cs" by simp
        with Cons Some p pv w sw show ?thesis by (simp add: parse_members.simps [of acc])
      qed
    qed
  qed
qed

text \<open>An array comes from a text that starts with a bracket.\<close>

lemma parse_number_kind: "parse_number cs = Some (v, r) \<Longrightarrow> \<exists>n. v = JNumber n"
  by (auto simp: parse_number_def Let_def split: option.splits)

lemma parse_kind:
  "parse_value cs = Some (v, rest) \<Longrightarrow> True"
  "parse_elements acc cs = Some (v, rest) \<Longrightarrow> isArray v"
  "parse_members macc cs = Some (v, rest) \<Longrightarrow> isObject v"
proof (induction cs and acc cs and macc cs arbitrary: v rest and v rest and v rest
    rule: parse_value_parse_elements_parse_members.induct)
  case 1
  show ?case by simp
next
  case (2 c cs)
  show ?case by simp
next
  case (3 acc cs)
  from "3.prems" obtain w r1 d r2 where pv: "parse_value cs = Some (w, r1)"
    and sw: "skip_ws r1 = d # r2"
    by (auto simp: parse_elements.simps [of acc cs] split: option.splits list.splits)
  show ?case
  proof (cases "d = 0x5D")
    case True
    with "3.prems" pv sw show ?thesis
      by (auto simp: parse_elements.simps [of acc cs] isArray_def)
  next
    case False
    with "3.prems" pv sw have g: "d = 0x2C \<and> length r2 < length cs"
      and r: "parse_elements (acc @ [w]) (skip_ws r2) = Some (v, rest)"
      by (auto simp: parse_elements.simps [of acc cs] split: if_splits)
    from "3.IH"(2) [OF pv refl sw False g r] show ?thesis .
  qed
next
  case (4 acc cs)
  from "4.prems" obtain cs0 where cs: "cs = 0x22 # cs0"
    by (cases cs) (auto simp: parse_members.simps [of acc] split: if_splits)
  from "4.prems" cs obtain k cs1 where pc: "parse_chars cs0 = Some (k, cs1)"
    by (auto simp: parse_members.simps [of acc] split: option.splits)
  from "4.prems" cs pc have colon: "take 1 (skip_ws cs1) = [0x3A]"
    by (auto simp: parse_members.simps [of acc] split: if_splits)
  from "4.prems" cs pc colon obtain w r1 d r2
    where pv: "parse_value (skip_ws (drop 1 (skip_ws cs1))) = Some (w, r1)"
      and sw: "skip_ws r1 = d # r2"
    by (auto simp: parse_members.simps [of acc] split: option.splits list.splits)
  have nq: "\<not> (0x22::code_unit) \<noteq> 0x22" by simp
  have nc: "\<not> take 1 (skip_ws cs1) \<noteq> [0x3A]" using colon by simp
  show ?case
  proof (cases "d = 0x7D")
    case True
    with "4.prems" cs pc colon pv sw show ?thesis
      by (auto simp: parse_members.simps [of acc] isObject_def)
  next
    case False
    with "4.prems" cs pc colon pv sw
    have r: "parse_members (CreateDataProperty acc k w) (skip_ws r2) = Some (v, rest)"
      and g: "d = 0x2C \<and> length r2 < length cs"
      by (auto simp: parse_members.simps [of acc] split: if_splits)
    from "4.IH"(2) [OF cs nq pc refl nc pv refl sw False g r] show ?thesis .
  qed
qed

lemma parse_value_array_head:
  assumes "parse_value cs = Some (JArray xs, rest)"
  shows "take 1 cs = [0x5B]"
proof (cases cs)
  case Nil
  with assms show ?thesis by simp
next
  case (Cons c t)
  show ?thesis
  proof (cases "c = 0x5B")
    case True
    with Cons show ?thesis by simp
  next
    case False
    have m: "parse_members [] (skip_ws t) \<noteq> Some (JArray xs, rest)"
      using parse_kind(3) [of "[]" "skip_ws t" "JArray xs" rest] by (auto simp: isObject_def)
    have n: "parse_number (c # t) \<noteq> Some (JArray xs, rest)"
      using parse_number_kind [of "c # t" "JArray xs" rest] by auto
    from assms Cons False m n show ?thesis
      by (auto split: if_splits option.splits)
  qed
qed

lemma dropWhile_snoc: "\<not> P c \<Longrightarrow> \<exists>zs. dropWhile P (ys @ [c]) = zs @ [c]"
  by (induction ys) auto

lemma String_trim_head: "String_trim s = c # t \<Longrightarrow> \<not> isWhiteSpace c"
proof -
  assume a: "String_trim s = c # t"
  show ?thesis
  proof (cases "dropWhile isWhiteSpace s")
    case Nil
    with a show ?thesis by (simp add: String_trim_def)
  next
    case (Cons c0 d)
    then have n: "\<not> isWhiteSpace c0"
      using hd_dropWhile [of isWhiteSpace s] by simp
    from dropWhile_snoc [of isWhiteSpace c0 "rev d", OF n] obtain zs
      where "dropWhile isWhiteSpace (rev d @ [c0]) = zs @ [c0]" by blast
    with a Cons have "c = c0" by (simp add: String_trim_def)
    with n show ?thesis by simp
  qed
qed

lemma skip_ws_trim: "skip_ws (String_trim s) = String_trim s"
proof (cases "String_trim s")
  case Nil
  then show ?thesis by (simp add: skip_ws_def)
next
  case (Cons c t)
  from String_trim_head [OF Cons] have "\<not> isJSONWhiteSpace c"
    by (auto simp: isWhiteSpace_def isJSONWhiteSpace_def)
  with Cons show ?thesis by (simp add: skip_ws_def)
qed

lemma JSON_parse_array_head:
  assumes "JSON_parse (String_trim s) = Inr (JArray xs)"
  shows "String_startsWith (String_trim s) (js ''['')"
proof -
  from assms obtain rest where "parse_value (String_trim s) = Some (JArray xs, rest)"
    by (auto simp: JSON_parse_def skip_ws_trim split: option.splits if_splits)
  from parse_value_array_head [OF this] show ?thesis
    by (simp add: String_startsWith_def js_def)
qed

lemma typeof_object: "(typeof v = ''object'' \<and> v \<noteq> JNull) = isObjectOrArray v"
  by (cases v) (simp_all add: typeof_def isObjectOrArray_def isObject_def isArray_def)

lemma JSON_parse_null: "JSON_parse (js ''null'') = Inr JNull"
  by code_simp

text \<open>\<open>int_to_dec\<close> writes the decimal digits: reading them back gives the number.\<close>

lemma digits_value_snoc: "digits_value (ds @ [c]) = 10 * digits_value ds + (uint c - 48)"
  by (simp add: digits_value_def)

lemma digit_char_value: "0 \<le> d \<Longrightarrow> d < 10 \<Longrightarrow> uint (digit_char d) - 48 = d"
proof -
  assume d: "0 \<le> d" "d < 10"
  have "uint (word_of_int (48 + d) :: 16 word) = (48 + d) mod 2 ^ 16"
    by (subst uint_word_of_int) simp
  with d show ?thesis by (simp only: digit_char_def) simp
qed

lemma int_to_dec_value: "0 \<le> n \<Longrightarrow> digits_value (int_to_dec n) = n"
proof (induction n rule: digit_list.induct)
  case (1 n)
  show ?case
  proof (cases "n < 10")
    case True
    with "1.prems" show ?thesis
      by (simp add: int_to_dec_def digit_list.simps [of n] digits_value_def digit_char_value)
  next
    case False
    with "1.prems" "1.IH" have "digits_value (int_to_dec (n div 10)) = n div 10"
      by simp
    with False show ?thesis
      by (simp add: int_to_dec_def digit_list.simps [of n] digits_value_snoc digit_char_value)
  qed
qed

section \<open>The loops of \<open>parseLines\<close> and \<open>buildResult\<close>\<close>

subsection \<open>The column set\<close>

lemma first_seen_distinct: "distinct (first_seen xs)"
  by (simp add: first_seen_def)

lemma first_seen_idem: "distinct xs \<Longrightarrow> first_seen xs = xs"
  by (simp add: first_seen_def distinct_remdups_id)

lemma first_seen_append: "first_seen (first_seen xs @ ys) = first_seen (xs @ ys)"
  by (simp add: first_seen_def remdups_append2)

lemma Set_add_first_seen: "distinct s \<Longrightarrow> Set_add k s = first_seen (s @ [k])"
  by (simp add: Set_add_def first_seen_def distinct_remdups_id)

lemma fold_Set_add: "distinct s \<Longrightarrow> fold Set_add ks s = first_seen (s @ ks)"
proof (induction ks arbitrary: s)
  case Nil
  then show ?case by (simp add: first_seen_idem)
next
  case (Cons k ks)
  have "fold Set_add (k # ks) s = fold Set_add ks (first_seen (s @ [k]))"
    using Cons.prems by (simp add: Set_add_first_seen)
  also have "\<dots> = first_seen (first_seen (s @ [k]) @ ks)"
    by (rule Cons.IH) (rule first_seen_distinct)
  also have "\<dots> = first_seen (s @ k # ks)"
    by (simp add: first_seen_append)
  finally show ?case .
qed

lemma add_keys_eq: "add_keys d s = Inr (fold Set_add (object_keys d) s)"
  by (cases d) (simp_all add: add_keys_def typeof_def Array_isArray_def Object_keys_def object_keys_def)

subsection \<open>The loop of \<open>parseLines\<close>\<close>

lemma parseLines_loop_fold: "parseLines_loop lines i st = lines_fold i (drop i lines) st"
proof (induction lines i st rule: parseLines_loop.induct)
  case (1 lines i st)
  show ?case
  proof (cases "i < length lines")
    case True
    then have d: "drop i lines = lines ! i # drop (i + 1) lines"
      by (simp add: Cons_nth_drop_Suc)
    show ?thesis
      using 1 True d by (subst parseLines_loop.simps) (simp add: Let_def)
  next
    case False
    then show ?thesis by (subst parseLines_loop.simps) simp
  qed
qed

lemma parseLines_body_eq:
  "parseLines_body i line (recs, s, errs) =
     (recs @ [line_record (length recs) i line],
      fold Set_add (record_keys (line_record (length recs) i line)) s,
      errs + (if has_error (line_record (length recs) i line) then 1 else 0))"
  by (cases "JSON_parse line")
    (simp_all add: parseLines_body_def parseLines_try_def parseLines_catch_def line_record_def
      add_keys_eq record_keys_def object_keys_def has_error_def)

lemma lines_fold_eq:
  "lines_fold i ls (recs, s, errs) =
     (recs @ line_records (length recs) i ls,
      fold Set_add (concat (map record_keys (line_records (length recs) i ls))) s,
      errs + length (filter has_error (line_records (length recs) i ls)))"
proof (induction ls arbitrary: i recs s errs)
  case Nil
  show ?case by simp
next
  case (Cons l ls)
  show ?case
  proof (cases "String_trim l = []")
    case True
    then show ?thesis using Cons.IH [of "i + 1" recs s errs] by simp
  next
    case False
    then show ?thesis
      by (simp add: parseLines_body_eq Cons.IH)
  qed
qed

lemma parseLines_eq:
  "parseLines text =
     \<lparr>records = line_records 0 0 (String_split text 0xA),
      columns = first_seen (concat (map record_keys (line_records 0 0 (String_split text 0xA)))),
      errorCount = length (filter has_error (line_records 0 0 (String_split text 0xA)))\<rparr>"
  by (simp add: parseLines_def parseLines_loop_fold lines_fold_eq Array_from_def fold_Set_add)

lemma line_records_length: "length (line_records k i ls) = length (filter nonblank ls)"
  by (induction ls arbitrary: k i) (simp_all add: nonblank_def)

lemma line_record_index [simp]: "index (line_record k i line) = k"
  by (simp add: line_record_def split: sum.splits)

lemma line_records_index:
  "map index (line_records k i ls) = [k ..< k + length (line_records k i ls)]"
proof (induction ls arbitrary: k i)
  case Nil
  show ?case by simp
next
  case (Cons l ls)
  show ?case
  proof (cases "String_trim l = []")
    case True
    then show ?thesis using Cons.IH [of k "i + 1"] by simp
  next
    case False
    let ?n = "length (line_records (k + 1) (i + 1) ls)"
    have "[k ..< Suc (k + ?n)] = k # [Suc k ..< Suc (k + ?n)]"
      by (rule upt_conv_Cons) simp
    then show ?thesis using False Cons.IH [of "k + 1" "i + 1"] by (simp del: upt_Suc)
  qed
qed

lemma line_records_nth:
  "j < length ls \<Longrightarrow> nonblank (ls ! j) \<Longrightarrow>
     length (filter nonblank (take j ls)) < length (line_records k i ls) \<and>
     line_records k i ls ! length (filter nonblank (take j ls)) =
       line_record (k + length (filter nonblank (take j ls))) (i + j) (String_trim (ls ! j))"
proof (induction ls arbitrary: j k i)
  case Nil
  then show ?case by simp
next
  case (Cons l ls)
  show ?case
  proof (cases j)
    case 0
    with Cons.prems show ?thesis by (simp add: nonblank_def)
  next
    case (Suc m)
    with Cons.prems have m: "m < length ls" "nonblank (ls ! m)" by simp_all
    show ?thesis
      using Cons.IH [OF m, of k "i + 1"] Cons.IH [OF m, of "k + 1" "i + 1"] Suc
      by (simp add: nonblank_def)
  qed
qed

subsection \<open>The loop of \<open>buildResult\<close>\<close>

lemma buildResult_loop_eq:
  "buildResult_loop items (recs, s) =
     Inr (recs @ map item_record items,
          fold Set_add (concat (map (\<lambda>item. object_keys (data item)) items)) s)"
  by (induction items arbitrary: recs s) (simp_all add: add_keys_eq item_record_def)

lemma buildResult_eq:
  "buildResult items =
     Inr \<lparr>records = map item_record items,
          columns = first_seen (concat (map record_keys (map item_record items))),
          errorCount = 0\<rparr>"
  by (simp add: buildResult_def buildResult_loop_eq Array_from_def fold_Set_add
      record_keys_def item_record_def comp_def)

section \<open>The three ways \<open>parseJsonl\<close> produces its result\<close>

lemma array_item_eq:
  "array_item throws p = (if throws (snd p) then Inl RangeError else Inr (item_of p))"
  by (cases p) (simp add: array_item_def JSON_stringify_call_def item_of_def)

lemma Array_map_items:
  "Array_map (array_item throws) ps =
     (if \<exists>p \<in> set ps. throws (snd p) then Inl RangeError else Inr (map item_of ps))"
  by (induction ps) (simp_all add: array_item_eq)

lemma Array_map_enumerate:
  "Array_map (array_item throws) (enumerate n elems) =
     (if \<exists>x \<in> set elems. throws x then Inl RangeError
      else Inr (map item_of (enumerate n elems)))"
proof -
  have "set elems = snd ` set (enumerate n elems)"
    by (metis map_snd_enumerate set_map)
  then have "(\<exists>p \<in> set (enumerate n elems). throws (snd p)) = (\<exists>x \<in> set elems. throws x)"
    by simp
  then show ?thesis by (simp only: Array_map_items)
qed

lemma parseJsonl_result:
  obtains (lines) "parseJsonl throws text = Inr (parseLines text)"
  | (array) elems where "JSON_parse (String_trim text) = Inr (JArray elems)"
      "\<forall>x \<in> set elems. \<not> throws x"
      "parseJsonl throws text = buildResult (map item_of (enumerate 0 elems))"
  | (object) ps where "JSON_parse (String_trim text) = Inr (JObject ps)"
      "parseJsonl throws text = buildResult [\<lparr>index = 0, data = JObject ps, raw = String_trim text\<rparr>]"
proof (cases "String_startsWith (String_trim text) (js ''['') \<or> String_startsWith (String_trim text) (js ''{'')")
  case False
  then have "parseJsonl throws text = Inr (parseLines text)"
    by (simp add: parseJsonl_def Let_def)
  then show ?thesis by (rule lines)
next
  case st: True
  show ?thesis
  proof (cases "JSON_parse (String_trim text)")
    case (Inl e)
    with st have "parseJsonl throws text = Inr (parseLines text)"
      by (simp add: parseJsonl_def parseJsonl_try_def Let_def)
    then show ?thesis by (rule lines)
  next
    case (Inr parsed)
    show ?thesis
    proof (cases parsed)
      case (JArray elems)
      show ?thesis
      proof (cases "\<exists>x \<in> set elems. throws x")
        case True
        with Inr JArray st have "parseJsonl throws text = Inr (parseLines text)"
          by (simp add: parseJsonl_def parseJsonl_try_def Let_def Array_map_enumerate)
        then show ?thesis by (rule lines)
      next
        case False
        with Inr JArray st
        have "parseJsonl throws text = buildResult (map item_of (enumerate 0 elems))"
          by (simp add: parseJsonl_def parseJsonl_try_def Let_def Array_map_enumerate
              buildResult_eq)
        with Inr JArray False show ?thesis using array by simp
      qed
    next
      case (JObject ps)
      with Inr st have "parseJsonl throws text =
          buildResult [\<lparr>index = 0, data = JObject ps, raw = String_trim text\<rparr>]"
        by (simp add: parseJsonl_def parseJsonl_try_def Let_def buildResult_eq typeof_def)
      with Inr JObject show ?thesis using object by simp
    qed (use Inr st in \<open>simp_all add: parseJsonl_def parseJsonl_try_def Let_def typeof_def lines\<close>)
  qed
qed

lemma item_of_index: "map index (map item_record (map item_of (enumerate 0 elems))) = [0 ..< length elems]"
proof -
  have "map index (map item_record (map item_of (enumerate 0 elems))) = map fst (enumerate 0 elems)"
    by (simp add: item_record_def item_of_def split_def comp_def)
  then show ?thesis by simp
qed

lemma item_of_data: "data (item_of p) \<noteq> JNull"
  by (cases p) (simp add: item_of_def)

lemma line_record_sound:
  "(data (line_record k i line) \<noteq> JNull \<and> error (line_record k i line) = None) \<or>
   (data (line_record k i line) = JNull \<and> error (line_record k i line) \<noteq> None) \<or>
   (data (line_record k i line) = JNull \<and> error (line_record k i line) = None \<and>
      JSON_parse (raw (line_record k i line)) = Inr JNull)"
  by (cases "JSON_parse line") (auto simp: line_record_def)

lemma line_records_sound:
  "x \<in> set (line_records k i ls) \<Longrightarrow>
   (data x \<noteq> JNull \<and> error x = None) \<or> (data x = JNull \<and> error x \<noteq> None) \<or>
   (data x = JNull \<and> error x = None \<and> JSON_parse (raw x) = Inr JNull)"
proof (induction ls arbitrary: k i)
  case Nil
  then show ?case by simp
next
  case (Cons l ls)
  show ?case
  proof (cases "String_trim l = []")
    case True
    with Cons.prems have "x \<in> set (line_records k (i + 1) ls)" by simp
    then show ?thesis by (rule Cons.IH)
  next
    case False
    with Cons.prems consider "x = line_record k i (String_trim l)"
      | "x \<in> set (line_records (k + 1) (i + 1) ls)" by auto
    then show ?thesis
    proof cases
      case 1
      then show ?thesis using line_record_sound [of k i "String_trim l"] by simp
    next
      case 2
      then show ?thesis by (rule Cons.IH)
    qed
  qed
qed

subsection \<open>Line terminators\<close>

lemma String_split_nonempty: "String_split s sep \<noteq> []"
  by (induction s) (auto split: list.splits)

lemma String_split_line: "sep \<notin> set l \<Longrightarrow> String_split (l @ sep # rest) sep = l # String_split rest sep"
  by (induction l) (auto split: list.splits)

lemma String_split_last: "sep \<notin> set l \<Longrightarrow> String_split l sep = [l]"
  by (induction l) (auto split: list.splits)

lemma split_join_lf:
  "ls \<noteq> [] \<Longrightarrow> \<forall>l \<in> set ls. 0xA \<notin> set l \<Longrightarrow> String_split (join [0xA] ls) 0xA = ls"
proof (induction "[0xA::code_unit]" ls rule: join.induct)
  case 1
  then show ?case by simp
next
  case (2 x)
  then show ?case by (simp add: String_split_last)
next
  case (3 x y ys)
  then show ?case by (simp add: String_split_line)
qed

lemma split_join_crlf:
  "ls \<noteq> [] \<Longrightarrow> \<forall>l \<in> set ls. 0xA \<notin> set l \<Longrightarrow>
     String_split (join [0xD, 0xA] ls) 0xA = map (\<lambda>l. l @ [0xD]) (butlast ls) @ [last ls]"
proof (induction "[0xD, 0xA::code_unit]" ls rule: join.induct)
  case 1
  then show ?case by simp
next
  case (2 x)
  then show ?case by (simp add: String_split_last)
next
  case (3 x y ys)
  have "String_split ((x @ [0xD]) @ 0xA # join [0xD, 0xA] (y # ys)) 0xA =
      (x @ [0xD]) # String_split (join [0xD, 0xA] (y # ys)) 0xA"
    using 3 by (intro String_split_line) simp
  with 3 show ?case by simp
qed

lemma String_trim_cr: "String_trim (l @ [0xD]) = String_trim l"
proof -
  have cr: "isWhiteSpace 0xD" by (simp add: isWhiteSpace_def)
  show ?thesis
  proof (cases "\<forall>c \<in> set l. isWhiteSpace c")
    case True
    have "dropWhile isWhiteSpace l = []"
      by (rule dropWhile_eq_Nil_conv [THEN iffD2]) (use True in auto)
    moreover have "dropWhile isWhiteSpace (l @ [0xD]) = []"
      by (rule dropWhile_eq_Nil_conv [THEN iffD2]) (use True cr in auto)
    ultimately show ?thesis by (simp only: String_trim_def)
  next
    case False
    then have "dropWhile isWhiteSpace (l @ [0xD]) = dropWhile isWhiteSpace l @ [0xD]"
      by (auto simp: dropWhile_append1)
    with cr show ?thesis by (simp add: String_trim_def)
  qed
qed

lemma line_records_cong:
  "map String_trim ls = map String_trim ls' \<Longrightarrow> line_records k i ls = line_records k i ls'"
proof (induction ls arbitrary: ls' k i)
  case Nil
  then show ?case by simp
next
  case (Cons l ls)
  then obtain l' t where "ls' = l' # t" "String_trim l = String_trim l'"
    "map String_trim ls = map String_trim t" by (cases ls') auto
  with Cons.IH [of t] show ?case by simp
qed

section \<open>The claims\<close>

subsection \<open>C1: \<open>parseJsonl\<close> always returns\<close>

text \<open>
  Claim C1. For every input string, the empty one included, \<open>parseJsonl\<close> returns a
  \<open>ParseResult\<close> and throws nothing. An exception inside the whole-document attempt is
  absorbed by the fallback to \<open>parseLines\<close>, and a line that \<open>JSON.parse\<close> rejects
  becomes a record with an \<open>error\<close> field.
\<close>

theorem parseJsonl_total:
  "(\<exists>r. parseJsonl throws text = Inr r) \<and>
   (\<forall>e. parseJsonl_try throws (String_trim text) = Inl e \<longrightarrow>
        parseJsonl throws text = Inr (parseLines text)) \<and>
   (\<forall>e. JSON_parse line = Inl e \<longrightarrow>
        parseLines_body i line (recs, s, errs) =
          (recs @ [\<lparr>index = length recs, data = JNull, raw = line,
                       error = Some (malformed_message i)\<rparr>], s, errs + 1))"
proof (intro conjI allI impI)
  show "\<exists>r. parseJsonl throws text = Inr r"
    by (cases rule: parseJsonl_result [of throws "text"]) (simp_all add: buildResult_eq)
next
  fix e
  assume "parseJsonl_try throws (String_trim text) = Inl e"
  then show "parseJsonl throws text = Inr (parseLines text)"
    by (simp add: parseJsonl_def Let_def)
next
  fix e
  assume "JSON_parse line = Inl e"
  then show "parseLines_body i line (recs, s, errs) =
      (recs @ [\<lparr>index = length recs, data = JNull, raw = line,
                   error = Some (malformed_message i)\<rparr>], s, errs + 1)"
    by (simp add: parseLines_body_def parseLines_try_def parseLines_catch_def)
qed

theorem parseJsonl_total_witness:
  "parseJsonl_try (deeper_than 1000) (String_trim (js ''[,'')) = Inl SyntaxError \<and>
   JSON_parse (js ''bad'') = Inl SyntaxError \<and>
   (\<exists>r. parseJsonl (deeper_than 1000) (js ''[,'') = Inr r) \<and>
   parseJsonl (deeper_than 1000) (js ''[,'') = Inr (parseLines (js ''[,'')) \<and>
   parseLines_body 0 (js ''bad'') ([], [], 0) =
     ([\<lparr>index = 0, data = JNull, raw = js ''bad'',
        error = Some (js ''Malformed JSON on line 1'')\<rparr>], [], 1)"
proof -
  have h: "parseJsonl_try (deeper_than 1000) (String_trim (js ''[,'')) = Inl SyntaxError"
    by code_simp
  have p: "JSON_parse (js ''bad'') = Inl SyntaxError"
    by code_simp
  have m: "malformed_message 0 = js ''Malformed JSON on line 1''"
    by code_simp
  from parseJsonl_total [of "deeper_than 1000" "js ''[,''" "js ''bad''" 0 "[]" "[]" 0] h p
  show ?thesis unfolding m by simp
qed

subsection \<open>C2: data and error of a record\<close>

text \<open>
  Claim C2 says that of "data is not null" and "error is present" exactly one holds for
  every record. The input \<open>null\<close> shows otherwise: its one line parses, to the value
  \<open>null\<close>, so the record has \<open>data = null\<close> and no \<open>error\<close>.
\<close>

theorem parseJsonl_exactly_one_counterexample:
  "parseJsonl (deeper_than 1000) (js ''null'') =
     Inr \<lparr>records = [\<lparr>index = 0, data = JNull, raw = js ''null'', error = None\<rparr>],
          columns = [], errorCount = 0\<rparr> \<and>
   \<not> ((data \<lparr>index = 0, data = JNull, raw = js ''null'', error = None\<rparr> \<noteq> JNull) \<noteq>
      (error \<lparr>index = 0, data = JNull, raw = js ''null'', error = None\<rparr> \<noteq> None))"
proof
  show "parseJsonl (deeper_than 1000) (js ''null'') =
     Inr \<lparr>records = [\<lparr>index = 0, data = JNull, raw = js ''null'', error = None\<rparr>],
          columns = [], errorCount = 0\<rparr>"
    by code_simp
  show "\<not> ((data \<lparr>index = 0, data = JNull, raw = js ''null'', error = None\<rparr> \<noteq> JNull) \<noteq>
      (error \<lparr>index = 0, data = JNull, raw = js ''null'', error = None\<rparr> \<noteq> None))"
    by simp
qed

text \<open>
  Claim C2, amended. For every record of the result of \<open>parseJsonl\<close>: either its
  data is not null and it has no error, or its data is null and it has an error, or its
  data is null, it has no error and its raw text parses to the JSON value \<open>null\<close>. In
  particular a record never has both.
\<close>

theorem parseJsonl_data_or_error:
  "parseJsonl throws text = Inr r \<Longrightarrow> x \<in> set (records r) \<Longrightarrow>
     (data x \<noteq> JNull \<and> error x = None) \<or> (data x = JNull \<and> error x \<noteq> None) \<or>
     (data x = JNull \<and> error x = None \<and> JSON_parse (raw x) = Inr JNull)"
proof (cases rule: parseJsonl_result [of throws "text"])
  case lines
  assume "parseJsonl throws text = Inr r" "x \<in> set (records r)"
  with lines have "x \<in> set (line_records 0 0 (String_split text 0xA))"
    by (auto simp: parseLines_eq)
  then show ?thesis by (rule line_records_sound)
next
  case (array elems)
  assume "parseJsonl throws text = Inr r" "x \<in> set (records r)"
  with array show ?thesis
    by (auto simp: buildResult_eq item_record_def item_of_data)
next
  case (object ps)
  assume "parseJsonl throws text = Inr r" "x \<in> set (records r)"
  with object show ?thesis
    by (auto simp: buildResult_eq item_record_def)
qed

theorem parseJsonl_data_or_error_witness:
  "parseJsonl (deeper_than 1000) (js ''null'' @ [0xA] @ js ''bad'') =
     Inr \<lparr>records = [\<lparr>index = 0, data = JNull, raw = js ''null'', error = None\<rparr>,
                     \<lparr>index = 1, data = JNull, raw = js ''bad'',
                      error = Some (js ''Malformed JSON on line 2'')\<rparr>],
          columns = [], errorCount = 1\<rparr> \<and>
   JSON_parse (js ''null'') = Inr JNull"
proof -
  let ?x = "\<lparr>index = 0, data = JNull, raw = js ''null'', error = None\<rparr>"
  let ?y = "\<lparr>index = 1, data = JNull, raw = js ''bad'',
             error = Some (js ''Malformed JSON on line 2'')\<rparr>"
  let ?r = "\<lparr>records = [?x, ?y], columns = [], errorCount = 1\<rparr>"
  have h: "parseJsonl (deeper_than 1000) (js ''null'' @ [0xA] @ js ''bad'') = Inr ?r"
    by code_simp
  have m: "?x \<in> set (records ?r)" by simp
  from parseJsonl_data_or_error [OF h m] h show ?thesis by simp
qed

subsection \<open>C3: the fallback to line-oriented parsing\<close>

text \<open>
  Claim C3. When the trimmed text does not start with \<open>[\<close> or \<open>{\<close> (so also for
  whitespace-only input), or fails to parse as JSON, or parses to a value that is neither
  an array nor an object, the result of \<open>parseJsonl\<close> is that of line-oriented parsing
  of the original, untrimmed text.
\<close>

theorem parseJsonl_fallback:
  assumes "\<not> (String_startsWith (String_trim text) (js ''['') \<or>
               String_startsWith (String_trim text) (js ''{''))
           \<or> (\<exists>e. JSON_parse (String_trim text) = Inl e)
           \<or> (\<exists>v. JSON_parse (String_trim text) = Inr v \<and> \<not> isArray v \<and> \<not> isObject v)"
  shows "parseJsonl throws text = Inr (parseLines text)"
proof -
  consider (a) "\<not> (String_startsWith (String_trim text) (js ''['') \<or>
               String_startsWith (String_trim text) (js ''{''))"
    | (b) e where "JSON_parse (String_trim text) = Inl e"
    | (c) v where "JSON_parse (String_trim text) = Inr v" "\<not> isArray v" "\<not> isObject v"
    using assms by blast
  then show ?thesis
  proof cases
    case a
    then show ?thesis by (simp add: parseJsonl_def Let_def)
  next
    case b
    then show ?thesis by (simp add: parseJsonl_def parseJsonl_try_def Let_def)
  next
    case c
    then show ?thesis
      by (cases v) (simp_all add: parseJsonl_def parseJsonl_try_def Let_def typeof_def
          isArray_def isObject_def)
  qed
qed

theorem parseJsonl_fallback_witness:
  "parseJsonl (deeper_than 1000) (js ''not json at all'') = Inr (parseLines (js ''not json at all'')) \<and>
   parseJsonl (deeper_than 1000) (js ''  '') = Inr (parseLines (js ''  '')) \<and>
   parseJsonl (deeper_than 1000) (js ''[,'') = Inr (parseLines (js ''[,''))"
proof (intro conjI)
  have "\<not> (String_startsWith (String_trim (js ''not json at all'')) (js ''['') \<or>
            String_startsWith (String_trim (js ''not json at all'')) (js ''{''))"
    by code_simp
  then show "parseJsonl (deeper_than 1000) (js ''not json at all'') = Inr (parseLines (js ''not json at all''))"
    by (intro parseJsonl_fallback disjI1)
  have "\<not> (String_startsWith (String_trim (js ''  '')) (js ''['') \<or>
            String_startsWith (String_trim (js ''  '')) (js ''{''))"
    by code_simp
  then show "parseJsonl (deeper_than 1000) (js ''  '') = Inr (parseLines (js ''  ''))"
    by (intro parseJsonl_fallback disjI1)
  have "JSON_parse (String_trim (js ''[,'')) = Inl SyntaxError"
    by code_simp
  then have "\<exists>e. JSON_parse (String_trim (js ''[,'')) = Inl e" ..
  then show "parseJsonl (deeper_than 1000) (js ''[,'') = Inr (parseLines (js ''[,''))"
    by (intro parseJsonl_fallback disjI2 disjI1)
qed

subsection \<open>C4: a top-level array\<close>

text \<open>
  Claim C4 says that an element that is not an object is wrapped as \<open>{ value: element }\<close>.
  The test in the source is \<open>typeof item === "object" && item !== null\<close>, which an array
  passes too: for the input \<open>[[]]\<close>, whose element the serialiser handles, the data of
  the record is the inner array itself.
\<close>

theorem parseJsonl_array_wrap_counterexample:
  "JSON_parse (String_trim (js ''[[]]'')) = Inr (JArray [JArray []]) \<and>
   \<not> isObject (JArray []) \<and>
   \<not> deeper_than 1000 (JArray []) \<and>
   parseJsonl (deeper_than 1000) (js ''[[]]'') =
     Inr \<lparr>records = [\<lparr>index = 0, data = JArray [], raw = js ''[]'', error = None\<rparr>],
          columns = [], errorCount = 0\<rparr> \<and>
   JArray [] \<noteq> JObject [(js ''value'', JArray [])]"
proof (intro conjI)
  show "JSON_parse (String_trim (js ''[[]]'')) = Inr (JArray [JArray []])"
    by code_simp
  show "\<not> isObject (JArray [])"
    by (simp add: isObject_def)
  show "\<not> deeper_than 1000 (JArray [])"
    by (simp add: deeper_than_def)
  show "parseJsonl (deeper_than 1000) (js ''[[]]'') =
     Inr \<lparr>records = [\<lparr>index = 0, data = JArray [], raw = js ''[]'', error = None\<rparr>],
          columns = [], errorCount = 0\<rparr>"
    by code_simp
  show "JArray [] \<noteq> JObject [(js ''value'', JArray [])]"
    by simp
qed

text \<open>
  Claim C4, amended. When the trimmed input parses as a JSON array and
  \<open>JSON.stringify\<close> returns for every element, \<open>parseJsonl\<close> emits one record per
  element, in array order, with the position of the element as its index; the data is
  the element itself when the element is an object or an array, and
  \<open>{ value: element }\<close> otherwise; the raw text is \<open>JSON.stringify\<close> of the element;
  no record has an error and \<open>errorCount\<close> is 0. When \<open>JSON.stringify\<close> throws on
  some element, the result is that of line-oriented parsing of the original text.
\<close>

theorem parseJsonl_array:
  assumes "JSON_parse (String_trim text) = Inr (JArray elems)"
  shows "((\<forall>x \<in> set elems. \<not> throws x) \<longrightarrow>
           (\<exists>r. parseJsonl throws text = Inr r \<and> length (records r) = length elems \<and>
              (\<forall>i < length elems. records r ! i =
                 \<lparr>index = i,
                  data = (if isObjectOrArray (elems ! i) then elems ! i
                          else JObject [(js ''value'', elems ! i)]),
                  raw = JSON_stringify (elems ! i), error = None\<rparr>) \<and>
              errorCount r = 0)) \<and>
         ((\<exists>x \<in> set elems. throws x) \<longrightarrow> parseJsonl throws text = Inr (parseLines text))"
proof (intro conjI impI)
  note st = JSON_parse_array_head [OF assms]
  {
    assume ok: "\<forall>x \<in> set elems. \<not> throws x"
    with st assms
    have "parseJsonl throws text = buildResult (map item_of (enumerate 0 elems))"
      by (simp add: parseJsonl_def parseJsonl_try_def Let_def Array_map_enumerate buildResult_eq)
    moreover have "map item_record (map item_of (enumerate 0 elems)) ! i =
        \<lparr>index = i,
         data = (if isObjectOrArray (elems ! i) then elems ! i
                 else JObject [(js ''value'', elems ! i)]),
         raw = JSON_stringify (elems ! i), error = None\<rparr>" if "i < length elems" for i
      using that by (simp add: nth_enumerate_eq item_record_def item_of_def typeof_object)
    ultimately show "\<exists>r. parseJsonl throws text = Inr r \<and> length (records r) = length elems \<and>
        (\<forall>i < length elems. records r ! i =
           \<lparr>index = i,
            data = (if isObjectOrArray (elems ! i) then elems ! i
                    else JObject [(js ''value'', elems ! i)]),
            raw = JSON_stringify (elems ! i), error = None\<rparr>) \<and>
        errorCount r = 0"
      by (simp add: buildResult_eq)
  }
  {
    assume "\<exists>x \<in> set elems. throws x"
    with st assms show "parseJsonl throws text = Inr (parseLines text)"
      by (simp add: parseJsonl_def parseJsonl_try_def Let_def Array_map_enumerate)
  }
qed

theorem parseJsonl_array_witness:
  "JSON_parse (String_trim (js ''[{},[],null]'')) = Inr (JArray [JObject [], JArray [], JNull]) \<and>
   \<not> deeper_than 1000 (JObject []) \<and> \<not> deeper_than 1000 (JArray []) \<and>
   \<not> deeper_than 1000 JNull \<and>
   (\<exists>r. parseJsonl (deeper_than 1000) (js ''[{},[],null]'') = Inr r \<and> length (records r) = 3 \<and>
      records r ! 0 = \<lparr>index = 0, data = JObject [], raw = js ''{}'', error = None\<rparr> \<and>
      records r ! 1 = \<lparr>index = 1, data = JArray [], raw = js ''[]'', error = None\<rparr> \<and>
      records r ! 2 = \<lparr>index = 2, data = JObject [(js ''value'', JNull)], raw = js ''null'',
                        error = None\<rparr> \<and>
      errorCount r = 0) \<and>
   JSON_parse (String_trim (js ''[[[]]]'')) = Inr (JArray [JArray [JArray []]]) \<and>
   deeper_than 1 (JArray [JArray []]) \<and>
   parseJsonl (deeper_than 1) (js ''[[[]]]'') = Inr (parseLines (js ''[[[]]]'')) \<and>
   parseLines (js ''[[[]]]'') =
     \<lparr>records = [\<lparr>index = 0, data = JArray [JArray [JArray []]], raw = js ''[[[]]]'',
                      error = None\<rparr>],
      columns = [], errorCount = 0\<rparr>"
proof -
  have h: "JSON_parse (String_trim (js ''[{},[],null]'')) = Inr (JArray [JObject [], JArray [], JNull])"
    by code_simp
  have ok: "\<forall>x \<in> set [JObject [], JArray [], JNull]. \<not> deeper_than 1000 x"
    by (simp add: deeper_than_def)
  from parseJsonl_array [OF h, of "deeper_than 1000"] ok obtain r where
    r: "parseJsonl (deeper_than 1000) (js ''[{},[],null]'') = Inr r" "length (records r) = 3"
      and n: "\<forall>i<3. records r ! i =
              \<lparr>index = i,
               data = (if isObjectOrArray ([JObject [], JArray [], JNull] ! i)
                       then [JObject [], JArray [], JNull] ! i
                       else JObject [(js ''value'', [JObject [], JArray [], JNull] ! i)]),
               raw = JSON_stringify ([JObject [], JArray [], JNull] ! i), error = None\<rparr>"
      and e: "errorCount r = 0"
    by auto
  from n have "records r ! 0 = \<lparr>index = 0, data = JObject [], raw = js ''{}'', error = None\<rparr>"
    by (simp add: isObjectOrArray_def isObject_def js_def)
  moreover from n have "records r ! 1 = \<lparr>index = 1, data = JArray [], raw = js ''[]'', error = None\<rparr>"
    by (simp add: isObjectOrArray_def isObject_def isArray_def js_def)
  moreover from n have "records r ! 2 =
      \<lparr>index = 2, data = JObject [(js ''value'', JNull)], raw = js ''null'', error = None\<rparr>"
    by (simp add: isObjectOrArray_def isObject_def isArray_def)
  ultimately have first: "\<exists>r. parseJsonl (deeper_than 1000) (js ''[{},[],null]'') = Inr r \<and>
      length (records r) = 3 \<and>
      records r ! 0 = \<lparr>index = 0, data = JObject [], raw = js ''{}'', error = None\<rparr> \<and>
      records r ! 1 = \<lparr>index = 1, data = JArray [], raw = js ''[]'', error = None\<rparr> \<and>
      records r ! 2 = \<lparr>index = 2, data = JObject [(js ''value'', JNull)], raw = js ''null'',
                        error = None\<rparr> \<and>
      errorCount r = 0"
    using r e by blast
  have g: "JSON_parse (String_trim (js ''[[[]]]'')) = Inr (JArray [JArray [JArray []]])"
    by code_simp
  have bad: "\<exists>x \<in> set [JArray [JArray []]]. deeper_than 1 x"
    by (simp add: deeper_than_def)
  from parseJsonl_array [OF g, of "deeper_than 1"] bad
  have second: "parseJsonl (deeper_than 1) (js ''[[[]]]'') = Inr (parseLines (js ''[[[]]]''))"
    by blast
  have third: "parseLines (js ''[[[]]]'') =
     \<lparr>records = [\<lparr>index = 0, data = JArray [JArray [JArray []]], raw = js ''[[[]]]'',
                      error = None\<rparr>],
      columns = [], errorCount = 0\<rparr>"
    by code_simp
  have ok': "\<not> deeper_than 1000 (JObject [])" "\<not> deeper_than 1000 (JArray [])"
      "\<not> deeper_than 1000 JNull"
    using ok by simp_all
  have bad': "deeper_than 1 (JArray [JArray []])"
    using bad by simp
  from h ok' first g bad' second third show ?thesis by blast
qed

subsection \<open>C5: the indices\<close>

text \<open>
  Claim C5. The indices of the records of a result are \<open>0, 1, \<dots>, N - 1\<close> in this
  order, \<open>N\<close> the number of records. In line-oriented parsing there is one record for
  every line that is not blank, whether it parsed or not: a blank line takes no index,
  a failed line does.
\<close>

theorem parseJsonl_indices:
  "(parseJsonl throws text = Inr r \<longrightarrow> map index (records r) = [0 ..< length (records r)]) \<and>
   length (records (parseLines text)) = length (filter nonblank (String_split text 0xA))"
proof
  show "parseJsonl throws text = Inr r \<longrightarrow> map index (records r) = [0 ..< length (records r)]"
  proof (cases rule: parseJsonl_result [of throws "text"])
    case lines
    then show ?thesis
      using line_records_index [of 0 0 "String_split text 0xA"] by (auto simp: parseLines_eq)
  next
    case (array elems)
    then show ?thesis
      using item_of_index [of elems] by (auto simp: buildResult_eq)
  next
    case (object ps)
    then show ?thesis by (auto simp: buildResult_eq item_record_def)
  qed
  show "length (records (parseLines text)) = length (filter nonblank (String_split text 0xA))"
    by (simp add: parseLines_eq line_records_length)
qed

theorem parseJsonl_indices_witness:
  "parseJsonl (deeper_than 1000) (js ''{}'' @ [0xA, 0xA] @ js ''bad'') =
     Inr \<lparr>records = [\<lparr>index = 0, data = JObject [], raw = js ''{}'', error = None\<rparr>,
                     \<lparr>index = 1, data = JNull, raw = js ''bad'',
                      error = Some (js ''Malformed JSON on line 3'')\<rparr>],
          columns = [], errorCount = 1\<rparr> \<and>
   length (filter nonblank (String_split (js ''{}'' @ [0xA, 0xA] @ js ''bad'') 0xA)) = 2 \<and>
   length (records (parseLines (js ''{}'' @ [0xA, 0xA] @ js ''bad''))) = 2"
proof -
  let ?t = "js ''{}'' @ [0xA, 0xA] @ js ''bad''"
  let ?r = "\<lparr>records = [\<lparr>index = 0, data = JObject [], raw = js ''{}'', error = None\<rparr>,
                     \<lparr>index = 1, data = JNull, raw = js ''bad'',
                      error = Some (js ''Malformed JSON on line 3'')\<rparr>],
          columns = [], errorCount = 1\<rparr>"
  have h: "parseJsonl (deeper_than 1000) ?t = Inr ?r" by code_simp
  have f: "length (filter nonblank (String_split ?t 0xA)) = 2" by code_simp
  from parseJsonl_indices [of "deeper_than 1000" ?t ?r] h f show ?thesis by simp
qed

subsection \<open>C6: the error count\<close>

text \<open>
  Claim C6. The \<open>errorCount\<close> of a result is the number of its records that have an
  \<open>error\<close> field.
\<close>

theorem parseJsonl_errorCount:
  "parseJsonl throws text = Inr r \<Longrightarrow> errorCount r = length (filter (\<lambda>x. error x \<noteq> None) (records r))"
proof (cases rule: parseJsonl_result [of throws "text"])
  case lines
  assume "parseJsonl throws text = Inr r"
  with lines have "r = parseLines text" by simp
  then show ?thesis by (simp add: parseLines_eq has_error_def [abs_def])
next
  case (array elems)
  assume "parseJsonl throws text = Inr r"
  with array show ?thesis by (auto simp: buildResult_eq item_record_def comp_def)
next
  case (object ps)
  assume "parseJsonl throws text = Inr r"
  with object show ?thesis by (auto simp: buildResult_eq item_record_def)
qed

theorem parseJsonl_errorCount_witness:
  "parseJsonl (deeper_than 1000) (js ''{}'' @ [0xA, 0xA] @ js ''bad'') =
     Inr \<lparr>records = [\<lparr>index = 0, data = JObject [], raw = js ''{}'', error = None\<rparr>,
                     \<lparr>index = 1, data = JNull, raw = js ''bad'',
                      error = Some (js ''Malformed JSON on line 3'')\<rparr>],
          columns = [], errorCount = 1\<rparr>"
proof -
  let ?t = "js ''{}'' @ [0xA, 0xA] @ js ''bad''"
  let ?r = "\<lparr>records = [\<lparr>index = 0, data = JObject [], raw = js ''{}'', error = None\<rparr>,
                     \<lparr>index = 1, data = JNull, raw = js ''bad'',
                      error = Some (js ''Malformed JSON on line 3'')\<rparr>],
          columns = [], errorCount = 1\<rparr>"
  have h: "parseJsonl (deeper_than 1000) ?t = Inr ?r" by code_simp
  from parseJsonl_errorCount [OF h] h show ?thesis by simp
qed

subsection \<open>C7: a malformed line\<close>

text \<open>
  Claim C7. In line-oriented parsing, line \<open>i\<close> (counted from 0 over all the pieces of
  the split input, blank ones included), when it is not blank and fails to parse, gives
  the record whose position is the number of non-blank lines before it, with
  \<open>data = null\<close>, the trimmed line as raw text and the message
  \<open>Malformed JSON on line\<close> followed by \<open>i + 1\<close> in decimal. Blank lines give no
  record: there are as many records as non-blank lines.
\<close>

theorem parseLines_malformed:
  assumes "i < length (String_split text 0xA)"
    and "String_trim (String_split text 0xA ! i) \<noteq> []"
    and "JSON_parse (String_trim (String_split text 0xA ! i)) = Inl e"
  shows "length (filter nonblank (take i (String_split text 0xA))) < length (records (parseLines text)) \<and>
         records (parseLines text) ! length (filter nonblank (take i (String_split text 0xA))) =
           \<lparr>index = length (filter nonblank (take i (String_split text 0xA))),
            data = JNull,
            raw = String_trim (String_split text 0xA ! i),
            error = Some (js ''Malformed JSON on line '' @ int_to_dec (int (i + 1)))\<rparr> \<and>
         length (records (parseLines text)) = length (filter nonblank (String_split text 0xA))"
proof -
  from assms(2) have nb: "nonblank (String_split text 0xA ! i)" by (simp add: nonblank_def)
  from line_records_nth [OF assms(1) nb, of 0 0] assms(3) show ?thesis
    by (simp add: parseLines_eq line_record_def malformed_message_def line_records_length)
qed

theorem parseLines_malformed_witness:
  "String_split (js ''{}'' @ [0xA, 0xA] @ js ''bad'') 0xA = [js ''{}'', [], js ''bad''] \<and>
   JSON_parse (js ''bad'') = Inl SyntaxError \<and>
   records (parseLines (js ''{}'' @ [0xA, 0xA] @ js ''bad'')) ! 1 =
     \<lparr>index = 1, data = JNull, raw = js ''bad'',
      error = Some (js ''Malformed JSON on line 3'')\<rparr> \<and>
   length (records (parseLines (js ''{}'' @ [0xA, 0xA] @ js ''bad''))) = 2"
proof -
  let ?t = "js ''{}'' @ [0xA, 0xA] @ js ''bad''"
  have sp: "String_split ?t 0xA = [js ''{}'', [], js ''bad'']" by code_simp
  have h1: "2 < length (String_split ?t 0xA)" by code_simp
  have tr: "String_trim (String_split ?t 0xA ! 2) = js ''bad''" by code_simp
  have h2: "String_trim (String_split ?t 0xA ! 2) \<noteq> []" by code_simp
  have pe: "JSON_parse (js ''bad'') = Inl SyntaxError" by code_simp
  have h3: "JSON_parse (String_trim (String_split ?t 0xA ! 2)) = Inl SyntaxError"
    by (simp only: tr pe)
  have k: "length (filter nonblank (take 2 (String_split ?t 0xA))) = 1" by code_simp
  have n: "length (filter nonblank (String_split ?t 0xA)) = 2" by code_simp
  have m: "js ''Malformed JSON on line '' @ int_to_dec (int (2 + 1)) = js ''Malformed JSON on line 3''"
    by code_simp
  from parseLines_malformed [OF h1 h2 h3] show ?thesis
    unfolding k n tr m using sp pe by simp
qed

subsection \<open>C8: the columns\<close>

text \<open>
  Claim C8. The columns of a result are the keys of the records whose data is an object
  and not an array, in emission order, each key at its first appearance and only once. A
  record with an error and a record whose data is an array contribute no key.
\<close>

theorem parseJsonl_columns:
  "parseJsonl throws text = Inr r \<Longrightarrow>
     columns r = first_seen (concat (map record_keys (records r))) \<and> distinct (columns r) \<and>
     (\<forall>x \<in> set (records r). error x \<noteq> None \<or> Array_isArray (data x) \<longrightarrow> record_keys x = [])"
proof -
  assume a: "parseJsonl throws text = Inr r"
  have c: "columns r = first_seen (concat (map record_keys (records r)))"
  proof (cases rule: parseJsonl_result [of throws "text"])
    case lines
    with a have "r = parseLines text" by simp
    then show ?thesis by (simp add: parseLines_eq)
  next
    case (array elems)
    with a show ?thesis by (auto simp: buildResult_eq)
  next
    case (object ps)
    with a show ?thesis by (auto simp: buildResult_eq)
  qed
  have e: "record_keys x = []" if "x \<in> set (records r)" "error x \<noteq> None \<or> Array_isArray (data x)" for x
  proof (cases rule: parseJsonl_result [of throws "text"])
    case lines
    with a have "r = parseLines text" by simp
    with that(1) have "x \<in> set (line_records 0 0 (String_split text 0xA))"
      by (simp add: parseLines_eq)
    from line_records_sound [OF this] that(2) show ?thesis
      by (auto simp: record_keys_def object_keys_def Array_isArray_def split: json.splits)
  next
    case (array elems)
    with a that show ?thesis
      by (auto simp: buildResult_eq item_record_def record_keys_def object_keys_def
          Array_isArray_def split: json.splits)
  next
    case (object ps)
    with a that show ?thesis
      by (auto simp: buildResult_eq item_record_def record_keys_def object_keys_def
          Array_isArray_def split: json.splits)
  qed
  from c e show ?thesis by (simp add: first_seen_distinct)
qed

theorem parseJsonl_columns_witness:
  "parseJsonl (deeper_than 1000) (js ''{\"a\":null,\"b\":[]}'' @ [0xA] @ js ''[]'' @ [0xA] @ js ''{\"b\":{},\"c\":null}'') =
     Inr \<lparr>records =
            [\<lparr>index = 0, data = JObject [(js ''a'', JNull), (js ''b'', JArray [])],
              raw = js ''{\"a\":null,\"b\":[]}'', error = None\<rparr>,
             \<lparr>index = 1, data = JArray [], raw = js ''[]'', error = None\<rparr>,
             \<lparr>index = 2, data = JObject [(js ''b'', JObject []), (js ''c'', JNull)],
              raw = js ''{\"b\":{},\"c\":null}'', error = None\<rparr>],
          columns = [js ''a'', js ''b'', js ''c''], errorCount = 0\<rparr> \<and>
   first_seen ([js ''a'', js ''b''] @ [] @ [js ''b'', js ''c'']) = [js ''a'', js ''b'', js ''c'']"
proof -
  let ?t = "js ''{\"a\":null,\"b\":[]}'' @ [0xA] @ js ''[]'' @ [0xA] @ js ''{\"b\":{},\"c\":null}''"
  let ?r = "\<lparr>records =
            [\<lparr>index = 0, data = JObject [(js ''a'', JNull), (js ''b'', JArray [])],
              raw = js ''{\"a\":null,\"b\":[]}'', error = None\<rparr>,
             \<lparr>index = 1, data = JArray [], raw = js ''[]'', error = None\<rparr>,
             \<lparr>index = 2, data = JObject [(js ''b'', JObject []), (js ''c'', JNull)],
              raw = js ''{\"b\":{},\"c\":null}'', error = None\<rparr>],
          columns = [js ''a'', js ''b'', js ''c''], errorCount = 0\<rparr>"
  have h: "parseJsonl (deeper_than 1000) ?t = Inr ?r" by code_simp
  from parseJsonl_columns [OF h] have "columns ?r = first_seen (concat (map record_keys (records ?r)))"
    by (rule conjunct1)
  then have "first_seen ([js ''a'', js ''b''] @ [] @ [js ''b'', js ''c'']) = [js ''a'', js ''b'', js ''c'']"
    by (simp add: record_keys_def object_keys_def)
  with h show ?thesis by (rule conjI)
qed

subsection \<open>C9: a line that is the literal null\<close>

text \<open>
  Claim C9. In line-oriented parsing a line whose trimmed text is \<open>null\<close> parses: the
  loop body appends a record with \<open>data = null\<close>, raw text \<open>null\<close> and no error, and
  leaves the column set and the error count as they were; in the result, that record
  stands at the position given by the number of non-blank lines before the line.
\<close>

theorem parseLines_null_line:
  "parseLines_body i (js ''null'') (recs, s, errs) =
     (recs @ [\<lparr>index = length recs, data = JNull, raw = js ''null'', error = None\<rparr>], s, errs) \<and>
   (j < length (String_split text 0xA) \<and> String_trim (String_split text 0xA ! j) = js ''null'' \<longrightarrow>
     length (filter nonblank (take j (String_split text 0xA))) < length (records (parseLines text)) \<and>
     records (parseLines text) ! length (filter nonblank (take j (String_split text 0xA))) =
       \<lparr>index = length (filter nonblank (take j (String_split text 0xA))),
        data = JNull, raw = js ''null'', error = None\<rparr>)"
proof (intro conjI impI)
  show "parseLines_body i (js ''null'') (recs, s, errs) =
     (recs @ [\<lparr>index = length recs, data = JNull, raw = js ''null'', error = None\<rparr>], s, errs)"
    by (simp add: parseLines_body_eq line_record_def JSON_parse_null record_keys_def
        object_keys_def has_error_def)
next
  assume a: "j < length (String_split text 0xA) \<and> String_trim (String_split text 0xA ! j) = js ''null''"
  then have nb: "nonblank (String_split text 0xA ! j)"
    by (simp add: nonblank_def js_def)
  from a have lt: "j < length (String_split text 0xA)" ..
  from line_records_nth [OF lt nb, of 0 0] a
  show "length (filter nonblank (take j (String_split text 0xA))) < length (records (parseLines text))"
    by (simp add: parseLines_eq)
  from line_records_nth [OF lt nb, of 0 0] a
  show "records (parseLines text) ! length (filter nonblank (take j (String_split text 0xA))) =
       \<lparr>index = length (filter nonblank (take j (String_split text 0xA))),
        data = JNull, raw = js ''null'', error = None\<rparr>"
    by (simp add: parseLines_eq line_record_def JSON_parse_null)
qed

theorem parseLines_null_line_witness:
  "String_split (js ''{}'' @ [0xA] @ js '' null '') 0xA = [js ''{}'', js '' null ''] \<and>
   records (parseLines (js ''{}'' @ [0xA] @ js '' null '')) ! 1 =
     \<lparr>index = 1, data = JNull, raw = js ''null'', error = None\<rparr> \<and>
   errorCount (parseLines (js ''{}'' @ [0xA] @ js '' null '')) = 0 \<and>
   columns (parseLines (js ''{}'' @ [0xA] @ js '' null '')) = []"
proof -
  let ?t = "js ''{}'' @ [0xA] @ js '' null ''"
  have sp: "String_split ?t 0xA = [js ''{}'', js '' null '']" by code_simp
  have h: "1 < length (String_split ?t 0xA) \<and> String_trim (String_split ?t 0xA ! 1) = js ''null''"
    by code_simp
  have k: "length (filter nonblank (take 1 (String_split ?t 0xA))) = 1" by code_simp
  have e: "errorCount (parseLines ?t) = 0" by code_simp
  have c: "columns (parseLines ?t) = []" by code_simp
  from parseLines_null_line [of 0 "[]" "[]" 0 1 ?t] h
  have "records (parseLines ?t) ! length (filter nonblank (take 1 (String_split ?t 0xA))) =
       \<lparr>index = length (filter nonblank (take 1 (String_split ?t 0xA))),
        data = JNull, raw = js ''null'', error = None\<rparr>"
    by blast
  then show ?thesis unfolding k using sp e c by simp
qed

subsection \<open>C10: line terminators\<close>

text \<open>
  Claim C10. For lines that contain neither a line feed nor a carriage return,
  \<open>parseLines\<close> gives the same result on the lines joined with CR LF as on the lines
  joined with LF.
\<close>

theorem parseLines_crlf:
  assumes "\<forall>l \<in> set ls. 0xA \<notin> set l \<and> 0xD \<notin> set l"
  shows "parseLines (join [0xD, 0xA] ls) = parseLines (join [0xA] ls)"
proof (cases "ls = []")
  case True
  then show ?thesis by simp
next
  case False
  from assms have n: "\<forall>l \<in> set ls. 0xA \<notin> set l" by simp
  have "map String_trim (map (\<lambda>l. l @ [0xD]) (butlast ls) @ [last ls]) =
      map String_trim (butlast ls @ [last ls])"
    by (simp add: String_trim_cr comp_def)
  also have "\<dots> = map String_trim ls" using False by simp
  finally have "line_records 0 0 (String_split (join [0xD, 0xA] ls) 0xA) =
      line_records 0 0 (String_split (join [0xA] ls) 0xA)"
    using split_join_lf [OF False n] split_join_crlf [OF False n]
    by (intro line_records_cong) simp
  then show ?thesis by (simp add: parseLines_eq)
qed

theorem parseLines_crlf_witness:
  "join [0xD, 0xA] [js ''{}'', js ''bad'', []] = js ''{}'' @ [0xD, 0xA] @ js ''bad'' @ [0xD, 0xA] \<and>
   join [0xA] [js ''{}'', js ''bad'', []] = js ''{}'' @ [0xA] @ js ''bad'' @ [0xA] \<and>
   parseLines (js ''{}'' @ [0xD, 0xA] @ js ''bad'' @ [0xD, 0xA]) =
     parseLines (js ''{}'' @ [0xA] @ js ''bad'' @ [0xA])"
proof -
  have h: "\<forall>l \<in> set [js ''{}'', js ''bad'', []]. 0xA \<notin> set l \<and> 0xD \<notin> set l"
    by (simp add: js_def)
  have a: "join [0xD, 0xA] [js ''{}'', js ''bad'', []] = js ''{}'' @ [0xD, 0xA] @ js ''bad'' @ [0xD, 0xA]"
    by simp
  have b: "join [0xA] [js ''{}'', js ''bad'', []] = js ''{}'' @ [0xA] @ js ''bad'' @ [0xA]"
    by simp
  from parseLines_crlf [OF h] show ?thesis unfolding a b using a b by simp
qed

end
